theory Spec2Isabelle
  imports Complex_Main "HOL-Library.Word"
begin

unbundle bit_operations_syntax

text \<open>
  A model of \<^verbatim>\<open>src/main.cpp\<close> of Teensy4TCXO: the two interrupt handlers and the main
  loop that calibrates a 10 MHz oscillator against a pulse-per-second reference and then
  disciplines an interval timer with it.
  \<^item> What a handler or the main loop reads from the hardware (the cycle counter, the
    registers of the pulse counter, the result of \<^verbatim>\<open>FreqCount\<close>) is an argument of its
    model.
  \<^item> What the program does to the timer, to \<^verbatim>\<open>FreqCount\<close> and to the serial line is a
    list of actions; a printed number is the value handed to the formatter, and for the
    drift its rendering with one decimal is given as well.
  \<^item> \<^verbatim>\<open>uint32_t\<close> is a 32-bit word, \<^verbatim>\<open>double\<close> is binary64 with rounding to nearest.
\<close>

section \<open>Machine types\<close>

type_synonym u16 = "16 word"
type_synonym u32 = "32 word"

subsection \<open>Binary64 values\<close>

text \<open>
  The program computes in C \<^verbatim>\<open>double\<close>. A value is a finite real, an infinity or a
  NaN. Every arithmetic operator rounds its exact result once, to the nearest value with a
  53-bit significand, ties to even (no fused multiply-add is assumed). Zero carries no
  sign: the only zero divisor the program can produce is the conversion of an unsigned
  count, which is the positive zero.
\<close>

datatype double = Fin real | PInf | NInf | NaN

function ilog2 :: "int \<Rightarrow> int" where
  "ilog2 n = (if n \<le> 1 then 0 else 1 + ilog2 (n div 2))"
  by pat_completeness auto
termination
  by (relation "measure nat") auto

declare ilog2.simps [simp del]

definition expo :: "real \<Rightarrow> int" where
  \<comment> \<open>the binary exponent \<open>e\<close> of a non-zero \<open>x\<close>: \<open>2\<^sup>e \<le> \<bar>x\<bar> < 2\<^sup>e\<^sup>+\<^sup>1\<close>\<close>
  "expo x = (let a = \<bar>x\<bar> in
     if 1 \<le> a then ilog2 \<lfloor>a\<rfloor>
     else - (1 + ilog2 (\<lceil>1 / a\<rceil> - 1)))"

definition ties_even :: "real \<Rightarrow> int" where
  "ties_even r = (let f = \<lfloor>r\<rfloor>; d = r - of_int f in
     if d < 1 / 2 then f else if 1 / 2 < d then f + 1 else if even f then f else f + 1)"

definition round53 :: "real \<Rightarrow> real" where
  \<comment> \<open>nearest multiple of the unit in the last place; subnormals share the exponent -1022\<close>
  "round53 x = (if x = 0 then 0 else
     let u = 2 powi (max (expo x) (- 1022) - 52) in of_int (ties_even (x / u)) * u)"

definition rnd :: "real \<Rightarrow> double" where
  "rnd x = (let r = round53 x in
     if r \<noteq> 0 \<and> 1024 \<le> expo r then (if 0 < x then PInf else NInf) else Fin r)"

fun dsub :: "double \<Rightarrow> double \<Rightarrow> double" where
  "dsub (Fin x) (Fin y) = rnd (x - y)"
| "dsub NaN _ = NaN"
| "dsub _ NaN = NaN"
| "dsub PInf PInf = NaN"
| "dsub NInf NInf = NaN"
| "dsub PInf _ = PInf"
| "dsub NInf _ = NInf"
| "dsub (Fin x) PInf = NInf"
| "dsub (Fin x) NInf = PInf"

fun dmul :: "double \<Rightarrow> double \<Rightarrow> double" where
  "dmul (Fin x) (Fin y) = rnd (x * y)"
| "dmul NaN _ = NaN"
| "dmul _ NaN = NaN"
| "dmul (Fin x) PInf = (if 0 < x then PInf else if x < 0 then NInf else NaN)"
| "dmul (Fin x) NInf = (if 0 < x then NInf else if x < 0 then PInf else NaN)"
| "dmul PInf (Fin y) = (if 0 < y then PInf else if y < 0 then NInf else NaN)"
| "dmul NInf (Fin y) = (if 0 < y then NInf else if y < 0 then PInf else NaN)"
| "dmul PInf PInf = PInf"
| "dmul NInf NInf = PInf"
| "dmul PInf NInf = NInf"
| "dmul NInf PInf = NInf"

fun ddiv :: "double \<Rightarrow> double \<Rightarrow> double" where
  "ddiv (Fin x) (Fin y) =
     (if y = 0 then (if 0 < x then PInf else if x < 0 then NInf else NaN) else rnd (x / y))"
| "ddiv NaN _ = NaN"
| "ddiv _ NaN = NaN"
| "ddiv (Fin x) PInf = Fin 0"
| "ddiv (Fin x) NInf = Fin 0"
| "ddiv PInf (Fin y) = (if 0 \<le> y then PInf else NInf)"
| "ddiv NInf (Fin y) = (if 0 \<le> y then NInf else PInf)"
| "ddiv PInf _ = NaN"
| "ddiv NInf _ = NaN"

text \<open>
  The program compares with \<^verbatim>\<open><\<close> and \<^verbatim>\<open>>\<close> only. Negation reads the minus sign that a
  format string prints in front of a value, and \<open>dle\<close> states being at or below a bound.
\<close>

fun dneg :: "double \<Rightarrow> double" where
  "dneg (Fin x) = Fin (- x)"
| "dneg PInf = NInf"
| "dneg NInf = PInf"
| "dneg NaN = NaN"

fun dlt :: "double \<Rightarrow> double \<Rightarrow> bool" where
  "dlt (Fin x) (Fin y) = (x < y)"
| "dlt NaN _ = False"
| "dlt _ NaN = False"
| "dlt _ NInf = False"
| "dlt PInf _ = False"
| "dlt NInf _ = True"
| "dlt _ PInf = True"

definition dgt :: "double \<Rightarrow> double \<Rightarrow> bool" where
  "dgt a b = dlt b a"

fun dle :: "double \<Rightarrow> double \<Rightarrow> bool" where
  "dle (Fin x) (Fin y) = (x \<le> y)"
| "dle NaN _ = False"
| "dle _ NaN = False"
| "dle NInf _ = True"
| "dle _ PInf = True"
| "dle _ NInf = False"
| "dle PInf _ = False"

definition of_u32 :: "u32 \<Rightarrow> double" where
  \<comment> \<open>conversion of a 32-bit unsigned integer: exact, it has fewer than 53 bits\<close>
  "of_u32 w = Fin (real_of_int (uint w))"

section \<open>The program state\<close>

text \<open>
  The globals of \<^verbatim>\<open>main.cpp\<close>, the function-local statics of \<^verbatim>\<open>loop()\<close>, and one bit
  of the \<^verbatim>\<open>IntervalTimer\<close> object: whether \<^verbatim>\<open>begin\<close> has registered the callback.
  \<open>init\<close> holds the initialisers; \<^verbatim>\<open>setup()\<close> changes none of these variables.
\<close>

record state =
  intervalCycles :: u32
  lastIntervalCycles :: u32
  ppsCycles :: u32
  lastPpsCycles :: u32
  ppsTcxoCount :: u32
  lastPpsTcxoCount :: u32
  tcxoMicros :: double
  firstTimeCount :: int
  firstTimeFlag :: bool
  interval :: double
  countRatio :: double
  intervalCount :: u32
  timerBegun :: bool

definition init :: state where
  "init = \<lparr> intervalCycles = 0, lastIntervalCycles = 0, ppsCycles = 0, lastPpsCycles = 0,
     ppsTcxoCount = 0, lastPpsTcxoCount = 0, tcxoMicros = Fin 1000000, firstTimeCount = 0,
     firstTimeFlag = True, interval = Fin 1000000, countRatio = Fin 1000000000000,
     intervalCount = 0, timerBegun = False \<rparr>"

text \<open>What the program does to its peripherals and writes to the serial line.\<close>

datatype action =
    TimerBegin double                   \<comment> \<open>\<^verbatim>\<open>myTimer.begin( intervalInterrupt, interval )\<close>\<close>
  | TimerUpdate double                  \<comment> \<open>\<^verbatim>\<open>myTimer.update( interval )\<close>\<close>
  | DriftNeg u32 double double double   \<comment> \<open>\<^verbatim>\<open>printf( "%d,-%.1f,%.2f,%.2f\n", ... )\<close>\<close>
  | DriftPos u32 double double double   \<comment> \<open>\<^verbatim>\<open>printf( "%d,%.1f,%.2f,%.2f\n", ... )\<close>\<close>
  | FreqCountBegin u32                  \<comment> \<open>\<^verbatim>\<open>FreqCount.begin( 1000000 )\<close>\<close>
  | PrintDelta u32                      \<comment> \<open>\<^verbatim>\<open>Serial.println( tc - lastPpsTcxoCount )\<close>\<close>
  | PrintWaiting                        \<comment> \<open>\<^verbatim>\<open>Serial.println( "waiting..." )\<close>\<close>
  | PrintCalibrated                     \<comment> \<open>\<^verbatim>\<open>Serial.println( "calculate countRatio and set timer..." )\<close>\<close>

section \<open>The interrupt handlers\<close>

text \<open>
  \<^verbatim>\<open>ppsInterrupt\<close> makes two stores. Its arguments are what it reads from the hardware:
  the cycle counter, and the two 16-bit registers of the pulse counter, which line 73
  combines as \<^verbatim>\<open>CNTR | HOLD << 16\<close>.
\<close>

definition pps_store_cycles :: "u32 \<Rightarrow> state \<Rightarrow> state" where
  "pps_store_cycles cyccnt s = s\<lparr>ppsCycles := cyccnt\<rparr>"

definition pps_store_count :: "u16 \<Rightarrow> u16 \<Rightarrow> state \<Rightarrow> state" where
  "pps_store_count cntr hold s = s\<lparr>ppsTcxoCount := ucast cntr OR push_bit 16 (ucast hold)\<rparr>"

definition ppsInterrupt :: "u32 \<Rightarrow> u16 \<Rightarrow> u16 \<Rightarrow> state \<Rightarrow> state" where
  "ppsInterrupt cyccnt cntr hold s = pps_store_count cntr hold (pps_store_cycles cyccnt s)"

definition intervalInterrupt :: "u32 \<Rightarrow> state \<Rightarrow> state" where
  "intervalInterrupt cyccnt s = s\<lparr>intervalCycles := cyccnt\<rparr>"

section \<open>The main loop\<close>

definition fudge :: double where
  "fudge = rnd (5 / 1000)"

definition micros :: "u32 \<Rightarrow> double" where
  \<comment> \<open>a cycle count divided by \<^verbatim>\<open>600.0\<close> (lines 133 and 171)\<close>
  "micros c = ddiv (of_u32 c) (Fin 600)"

definition drift_record :: "u32 \<Rightarrow> u32 \<Rightarrow> double \<Rightarrow> double \<Rightarrow> action" where
  \<comment> \<open>lines 133-146: classify the offset and print one record\<close>
  "drift_record n dt iv tm =
     (let dtus = micros dt in
      if dgt dtus (Fin 500000) \<and> dlt dtus (Fin 1000000)
      then DriftNeg n (dsub (Fin 1000000) dtus) iv tm
      else DriftPos n (if dgt dtus (Fin 1000000) then Fin 0 else dtus) iv tm)"

definition loop_interval :: "state \<Rightarrow> state \<times> action list" where
  \<comment> \<open>lines 113-147: the first critical section and the interval branch\<close>
  "loop_interval s =
     (let ic = intervalCycles s;
          dt = ic - ppsCycles s
      in if ic \<noteq> lastIntervalCycles s
         then (let n = intervalCount s + 1;
                   iv = dsub (dmul (countRatio s) (tcxoMicros s)) fudge
               in (s\<lparr>lastIntervalCycles := ic, intervalCount := n, interval := iv\<rparr>,
                   [TimerUpdate iv, drift_record n dt iv (tcxoMicros s)]))
         else (s, []))"

definition loop_freq :: "u32 option \<Rightarrow> state \<Rightarrow> state" where
  \<comment> \<open>lines 149-157: \<open>Some tcxoCount\<close> when \<^verbatim>\<open>FreqCount.available()\<close> holds\<close>
  "loop_freq fc s =
     (case fc of
        None \<Rightarrow> s
      | Some tcxoCount \<Rightarrow>
          s\<lparr>tcxoMicros := dmul (ddiv (Fin 10000000) (of_u32 tcxoCount)) (Fin 1000000)\<rparr>)"

definition loop_pps :: "state \<Rightarrow> state \<times> action list" where
  \<comment> \<open>lines 159-207: the second critical section and the reference-edge branch\<close>
  "loop_pps s =
     (let pc = ppsCycles s;
          tc = ppsTcxoCount s
      in if pc \<noteq> lastPpsCycles s
         then (let dtt = pc - lastPpsCycles s;
                   ppsMicros = micros dtt;
                   s1 = s\<lparr>lastPpsCycles := pc\<rparr>
               in if firstTimeCount s1 < 10
                  then (if firstTimeCount s1 = 0
                        then (s1\<lparr>firstTimeCount := firstTimeCount s1 + 1\<rparr>,
                              [FreqCountBegin 1000000, PrintWaiting])
                        else (s1\<lparr>lastPpsTcxoCount := tc,
                                 firstTimeCount := firstTimeCount s1 + 1\<rparr>,
                              [PrintDelta (tc - lastPpsTcxoCount s1), PrintWaiting]))
                  else if firstTimeFlag s1
                  then (let cr = ddiv ppsMicros (tcxoMicros s1);
                            iv = dmul cr (tcxoMicros s1)
                        in (s1\<lparr>countRatio := cr, interval := iv, firstTimeFlag := False,
                               timerBegun := True\<rparr>,
                            [TimerBegin iv, PrintCalibrated]))
                  else (s1, []))
         else (s, []))"

text \<open>
  Interrupts are masked only inside the two critical sections, so handlers may run
  between them. \<open>mid\<close> lists the handlers that run after the first critical section and
  before the second one. The interval handler runs only once \<^verbatim>\<open>myTimer.begin\<close> has
  registered it.
\<close>

datatype irq = Pps u32 u16 u16 | Ivl u32

fun fire :: "irq \<Rightarrow> state \<Rightarrow> state" where
  "fire (Pps cyccnt cntr hold) s = ppsInterrupt cyccnt cntr hold s"
| "fire (Ivl cyccnt) s = (if timerBegun s then intervalInterrupt cyccnt s else s)"

definition fire_all :: "irq list \<Rightarrow> state \<Rightarrow> state" where
  "fire_all irqs s = foldl (\<lambda>t i. fire i t) s irqs"

definition loop :: "u32 option \<Rightarrow> irq list \<Rightarrow> state \<Rightarrow> state \<times> action list" where
  "loop fc mid s =
     (let (s1, out1) = loop_interval s;
          s2 = fire_all mid (loop_freq fc s1);
          (s3, out2) = loop_pps s2
      in (s3, out1 @ out2))"

section \<open>Runs\<close>

datatype event = Interrupt irq | LoopPass "u32 option" "irq list"

fun step :: "event \<Rightarrow> state \<Rightarrow> state \<times> action list" where
  "step (Interrupt i) s = (fire i s, [])"
| "step (LoopPass fc mid) s = loop fc mid s"

fun run_from :: "state \<Rightarrow> event list \<Rightarrow> state \<times> action list" where
  "run_from s [] = (s, [])"
| "run_from s (e # es) =
     (let (s1, out1) = step e s; (s2, out2) = run_from s1 es in (s2, out1 @ out2))"

definition run :: "event list \<Rightarrow> state \<times> action list" where
  "run es = run_from init es"

section \<open>Reading the output\<close>

text \<open>
  The drift a record reports is the value handed to the formatter, with the sign the
  format string puts in front of it.
\<close>

fun drifts :: "action list \<Rightarrow> double list" where
  "drifts [] = []"
| "drifts (DriftNeg n m iv tm # out) = dneg m # drifts out"
| "drifts (DriftPos n v iv tm # out) = v # drifts out"
| "drifts (a # out) = drifts out"

fun timer_begins :: "action list \<Rightarrow> double list" where
  "timer_begins [] = []"
| "timer_begins (TimerBegin p # out) = p # timer_begins out"
| "timer_begins (a # out) = timer_begins out"

fun timer_updates :: "action list \<Rightarrow> double list" where
  "timer_updates [] = []"
| "timer_updates (TimerUpdate p # out) = p # timer_updates out"
| "timer_updates (a # out) = timer_updates out"

fun in_span :: "double \<Rightarrow> bool" where
  "in_span (Fin v) = (- 500000 < v \<and> v \<le> 1000000)"
| "in_span _ = False"

text \<open>
  What the serial line shows. The conversion \<^verbatim>\<open>%.1f\<close> prints the decimal with one
  fractional digit that is nearest to the value (a tie goes to the even digit); an
  infinity or a NaN prints no number. The record of line 138 prints a minus sign in
  front of the rendered magnitude.
\<close>

definition one_decimal :: "real \<Rightarrow> real" where
  "one_decimal x = real_of_int (ties_even (10 * x)) / 10"

fun printed :: "double \<Rightarrow> real option" where
  "printed (Fin x) = Some (one_decimal x)"
| "printed _ = None"

fun printed_drifts :: "action list \<Rightarrow> real option list" where
  "printed_drifts [] = []"
| "printed_drifts (DriftNeg n m iv tm # out) = map_option uminus (printed m) # printed_drifts out"
| "printed_drifts (DriftPos n v iv tm # out) = printed v # printed_drifts out"
| "printed_drifts (a # out) = printed_drifts out"

fun in_printed_span :: "real option \<Rightarrow> bool" where
  "in_printed_span (Some r) = (- 500000 \<le> r \<and> r \<le> 1000000)"
| "in_printed_span None = False"

text \<open>
  The calibration branch is the only place that prints
  \<^verbatim>\<open>"calculate countRatio and set timer..."\<close>; every warm-up edge prints \<^verbatim>\<open>"waiting..."\<close>.
\<close>

fun calibrations :: "action list \<Rightarrow> nat" where
  "calibrations [] = 0"
| "calibrations (PrintCalibrated # out) = Suc (calibrations out)"
| "calibrations (a # out) = calibrations out"

fun warmups_before_calibration :: "action list \<Rightarrow> nat" where
  "warmups_before_calibration [] = 0"
| "warmups_before_calibration (PrintCalibrated # out) = 0"
| "warmups_before_calibration (PrintWaiting # out) = Suc (warmups_before_calibration out)"
| "warmups_before_calibration (a # out) = warmups_before_calibration out"

text \<open>No timer update and no drift record comes before the first \<^verbatim>\<open>myTimer.begin\<close>.\<close>

fun begins_first :: "action list \<Rightarrow> bool" where
  "begins_first [] = True"
| "begins_first (TimerBegin p # out) = True"
| "begins_first (TimerUpdate p # out) = False"
| "begins_first (DriftNeg n m iv tm # out) = False"
| "begins_first (DriftPos n v iv tm # out) = False"
| "begins_first (a # out) = begins_first out"

section \<open>Reading the events\<close>



text \<open>The pulse count of the last window that a pass of the main loop has read, if any.\<close>

fun measured :: "event list \<Rightarrow> u32 option" where
  "measured [] = None"
| "measured (LoopPass (Some n) mid # es) =
     (case measured es of None \<Rightarrow> Some n | Some m \<Rightarrow> Some m)"
| "measured (e # es) = measured es"




text \<open>
  The reference edges a state accounts for: the warm-up edges counted, the calibration
  edge, and an edge captured that the main loop has not seen yet.
\<close>

definition edges_accounted :: "state \<Rightarrow> int" where
  "edges_accounted s =
     firstTimeCount s + (if ppsCycles s \<noteq> lastPpsCycles s then 1 else 0) +
     (if firstTimeFlag s then 0 else 1)"

section \<open>Firings and updates in their order\<close>











section \<open>The hand-over of a capture, instruction by instruction\<close>

text \<open>
  Lines 159 to 162 of \<^verbatim>\<open>loop()\<close> one instruction at a time, and \<^verbatim>\<open>ppsInterrupt\<close> one
  store at a time (lines 70 and 73), on one core: \<^verbatim>\<open>noInterrupts()\<close> masks the handler
  and \<^verbatim>\<open>interrupts()\<close> unmasks it, a masked handler does not start, and the main loop
  does not run while the handler is between its two stores. A step that is not possible
  gives \<open>None\<close>. After the section, the main loop goes on to line 159 of its next pass
  without writing the two captured variables.
\<close>

datatype place = AtNoInterrupts | AtReadCycles | AtReadCount | AtInterrupts | AfterSection

record core =
  mem :: state
  masked :: bool
  in_handler :: bool
  place :: place
  pc :: u32
  tc :: u32

datatype tick = Main | Store70 u32 | Store73 u16 u16

fun tick_step :: "tick \<Rightarrow> core \<Rightarrow> core option" where
  "tick_step Main c =
     (if in_handler c then None
      else (case place c of
              AtNoInterrupts \<Rightarrow> Some (c\<lparr>masked := True, place := AtReadCycles\<rparr>)
            | AtReadCycles \<Rightarrow> Some (c\<lparr>pc := ppsCycles (mem c), place := AtReadCount\<rparr>)
            | AtReadCount \<Rightarrow> Some (c\<lparr>tc := ppsTcxoCount (mem c), place := AtInterrupts\<rparr>)
            | AtInterrupts \<Rightarrow> Some (c\<lparr>masked := False, place := AfterSection\<rparr>)
            | AfterSection \<Rightarrow> Some (c\<lparr>place := AtNoInterrupts\<rparr>)))"
| "tick_step (Store70 cyccnt) c =
     (if masked c \<or> in_handler c then None
      else Some (c\<lparr>mem := pps_store_cycles cyccnt (mem c), in_handler := True\<rparr>))"
| "tick_step (Store73 cntr hold) c =
     (if in_handler c
      then Some (c\<lparr>mem := pps_store_count cntr hold (mem c), in_handler := False\<rparr>)
      else None)"

fun ticks :: "tick list \<Rightarrow> core \<Rightarrow> core option" where
  "ticks [] c = Some c"
| "ticks (t # ts) c = (case tick_step t c of None \<Rightarrow> None | Some c' \<Rightarrow> ticks ts c')"

definition boot :: core where
  "boot = \<lparr> mem = init, masked = False, in_handler = False, place = AtNoInterrupts,
     pc = 0, tc = 0 \<rparr>"

text \<open>
  The captures of a sequence of steps: for every run of the handler, the cycle count it
  stored together with the tally it stored.
\<close>

fun captures :: "tick list \<Rightarrow> (u32 \<times> u32) list" where
  "captures (Store70 cyccnt # Store73 cntr hold # ts) =
     (cyccnt, ucast cntr OR push_bit 16 (ucast hold)) # captures ts"
| "captures (t # ts) = captures ts"
| "captures [] = []"

text \<open>
  Between two steps of the main loop, with the handler not running: the pair in memory
  is one of the pairs \<open>S\<close>, the mask is set exactly inside the section, and what the
  section has copied so far agrees with memory.
\<close>

definition settled :: "core \<Rightarrow> (u32 \<times> u32) set \<Rightarrow> bool" where
  "settled c S \<longleftrightarrow>
     \<not> in_handler c \<and>
     (masked c \<longleftrightarrow> place c = AtReadCycles \<or> place c = AtReadCount \<or> place c = AtInterrupts) \<and>
     (ppsCycles (mem c), ppsTcxoCount (mem c)) \<in> S \<and>
     (place c = AtReadCount \<longrightarrow> pc c = ppsCycles (mem c)) \<and>
     (place c = AtInterrupts \<longrightarrow> pc c = ppsCycles (mem c) \<and> tc c = ppsTcxoCount (mem c)) \<and>
     (place c = AfterSection \<longrightarrow> (pc c, tc c) \<in> S)"

section \<open>Scenarios\<close>

text \<open>
  A run of \<^verbatim>\<open>ppsInterrupt\<close> that finds \<open>cyccnt\<close> in the cycle counter and the 32-bit
  tally \<open>tally\<close> in the two registers of the pulse counter.
\<close>

definition pps_edge :: "u32 \<Rightarrow> u32 \<Rightarrow> irq" where
  "pps_edge cyccnt tally = Pps cyccnt (ucast tally) (ucast (drop_bit 16 tally))"

text \<open>
  The ideal reference: edge \<open>k\<close> arrives 600,000,000 cycles (one second) after edge
  \<open>k - 1\<close>, the tally advances by 10,000,000 per second, the main loop passes once after
  every edge, and from the third pass on a window of exactly 10,000,000 pulses is ready.
\<close>

definition ideal_edge :: "u32 \<Rightarrow> event" where
  "ideal_edge k = Interrupt (pps_edge (1000 + k * 600000000) (k * 10000000))"

definition ideal_pass :: "u32 \<Rightarrow> event list" where
  "ideal_pass k = [ideal_edge k, LoopPass (if 2 \<le> k then Some 10000000 else None) []]"

definition ideal_warm_up :: "event list" where
  "ideal_warm_up = concat (map ideal_pass [0, 1, 2, 3, 4, 5, 6, 7, 8, 9]) @ [ideal_edge 10]"

definition ideal :: "event list" where
  "ideal = ideal_warm_up @ [LoopPass (Some 10000000) []]"

text \<open>
  The state in which the interval handler has run \<open>dt\<close> cycles after the last reference
  edge of the ideal run.
\<close>

definition after_ideal :: "u32 \<Rightarrow> state" where
  "after_ideal dt = fire (Ivl (1705033704 + dt)) (fst (run ideal))"



section \<open>Facts about rounding\<close>

lemma ilog2_bounds: "1 \<le> n \<Longrightarrow> 0 \<le> ilog2 n \<and> 2 ^ nat (ilog2 n) \<le> n \<and> n < 2 * 2 ^ nat (ilog2 n)"
proof (induction n rule: ilog2.induct)
  case (1 n)
  show ?case
  proof (cases "n \<le> 1")
    case True
    with "1.prems" have "n = 1" by simp
    then show ?thesis by (simp add: ilog2.simps)
  next
    case False
    then have h: "1 \<le> n div 2" by simp
    from "1.IH"[OF False h] have ih: "0 \<le> ilog2 (n div 2)" "2 ^ nat (ilog2 (n div 2)) \<le> n div 2"
      "n div 2 < 2 * 2 ^ nat (ilog2 (n div 2))" by auto
    have e: "ilog2 n = 1 + ilog2 (n div 2)" using False by (subst ilog2.simps) simp
    have p: "(2::int) ^ nat (1 + ilog2 (n div 2)) = 2 * 2 ^ nat (ilog2 (n div 2))"
      using ih(1) by (simp add: nat_add_distrib)
    show ?thesis unfolding e p using ih by auto
  qed
qed

lemma ilog2_powi:
  assumes "1 \<le> n"
  shows "(2::real) powi ilog2 n \<le> of_int n" "of_int n < (2::real) powi (ilog2 n + 1)"
proof -
  from ilog2_bounds[OF assms] have b: "0 \<le> ilog2 n" "2 ^ nat (ilog2 n) \<le> n" "n < 2 * 2 ^ nat (ilog2 n)"
    by auto
  have p: "(2::real) powi ilog2 n = 2 ^ nat (ilog2 n)"
    using b(1) by (simp add: power_int_def)
  have "real_of_int (2 ^ nat (ilog2 n)) \<le> of_int n" using b(2) by (rule of_int_le_iff[THEN iffD2])
  then show "(2::real) powi ilog2 n \<le> of_int n" by (simp add: p)
  have "real_of_int n < of_int (2 * 2 ^ nat (ilog2 n))" using b(3) by (rule of_int_less_iff[THEN iffD2])
  then show "of_int n < (2::real) powi (ilog2 n + 1)" by (simp add: p power_int_add)
qed

lemma powi_Suc_nat: "0 \<le> j \<Longrightarrow> (2::real) powi (j + 1) = 2 * 2 ^ nat j"
  by (simp add: power_int_def nat_add_distrib)

lemma expo_bounds:
  assumes "x \<noteq> 0"
  shows "2 powi expo x \<le> \<bar>x\<bar>" "\<bar>x\<bar> < 2 powi (expo x + 1)"
proof -
  let ?a = "\<bar>x\<bar>"
  have pos: "0 < ?a" using assms by simp
  have "2 powi expo x \<le> ?a \<and> ?a < 2 powi (expo x + 1)"
  proof (cases "1 \<le> ?a")
    case True
    then have n: "1 \<le> \<lfloor>?a\<rfloor>" by simp
    have e: "expo x = ilog2 \<lfloor>?a\<rfloor>" using True by (simp add: expo_def)
    have "2 powi ilog2 \<lfloor>?a\<rfloor> \<le> real_of_int \<lfloor>?a\<rfloor>" by (rule ilog2_powi(1)[OF n])
    also have "\<dots> \<le> ?a" by (rule of_int_floor_le)
    finally have lo: "2 powi expo x \<le> ?a" by (simp add: e)
    have "\<lfloor>?a\<rfloor> + 1 \<le> 2 * 2 ^ nat (ilog2 \<lfloor>?a\<rfloor>)" using ilog2_bounds[OF n] by simp
    then have "real_of_int (\<lfloor>?a\<rfloor> + 1) \<le> real_of_int (2 * 2 ^ nat (ilog2 \<lfloor>?a\<rfloor>))"
      by (rule of_int_le_iff[THEN iffD2])
    then have A1: "real_of_int \<lfloor>?a\<rfloor> + 1 \<le> 2 * 2 ^ nat (ilog2 \<lfloor>?a\<rfloor>)" by simp
    have A2: "?a < real_of_int \<lfloor>?a\<rfloor> + 1" by linarith
    have A3: "(2::real) powi (expo x + 1) = 2 * 2 ^ nat (ilog2 \<lfloor>?a\<rfloor>)"
      unfolding e using ilog2_bounds[OF n] by (simp add: powi_Suc_nat)
    have "?a < 2 powi (expo x + 1)" unfolding A3 using A1 A2 by linarith
    with lo show ?thesis by simp
  next
    case False
    let ?m = "\<lceil>1 / ?a\<rceil>"
    let ?j = "ilog2 (?m - 1)"
    from False pos have inv: "1 < 1 / ?a" by (simp add: field_simps)
    then have "1 < ?m" by (simp add: less_ceiling_iff)
    then have m1: "1 \<le> ?m - 1" by simp
    have e: "expo x = - (1 + ?j)" using False by (simp add: expo_def Let_def)
    from ilog2_bounds[OF m1] have j0: "0 \<le> ?j" by simp
    have lo1: "2 powi ?j \<le> real_of_int (?m - 1)" by (rule ilog2_powi(1)[OF m1])
    have hi1: "real_of_int (?m - 1) < 2 powi (?j + 1)" by (rule ilog2_powi(2)[OF m1])
    have "real_of_int (?m - 1) < 1 / ?a" using ceiling_correct[of "1 / ?a"] by simp
    with lo1 have A: "2 powi ?j < 1 / ?a" by linarith
    have pj: "(2::real) powi (?j + 1) = real_of_int (2 * 2 ^ nat ?j)"
      using j0 by (simp add: powi_Suc_nat)
    have "?m - 1 < 2 * 2 ^ nat ?j" using ilog2_bounds[OF m1] by simp
    then have "?m \<le> 2 * 2 ^ nat ?j" by simp
    then have "real_of_int ?m \<le> real_of_int (2 * 2 ^ nat ?j)" by (rule of_int_le_iff[THEN iffD2])
    moreover have "1 / ?a \<le> real_of_int ?m" by (rule le_of_int_ceiling)
    ultimately have B: "1 / ?a \<le> 2 powi (?j + 1)" using pj by linarith
    have pp: "0 < (2::real) powi ?j" "0 < (2::real) powi (?j + 1)" by (simp_all add: zero_less_power_int)
    have "2 powi (- (1 + ?j)) \<le> ?a"
    proof -
      have "1 \<le> ?a * 2 powi (?j + 1)" using B pos by (simp add: field_simps)
      then have "1 / 2 powi (?j + 1) \<le> ?a" using pp(2) by (simp add: field_simps)
      moreover have "(2::real) powi (- (1 + ?j)) = 1 / 2 powi (?j + 1)"
        by (metis power_int_minus_divide add.commute)
      ultimately show ?thesis by simp
    qed
    moreover have "?a < 2 powi (- (1 + ?j) + 1)"
    proof -
      have "?a * 2 powi ?j < 1" using A pos by (simp add: field_simps)
      then have "?a < 1 / 2 powi ?j" using pp(1) by (simp add: field_simps)
      then show ?thesis by (simp add: power_int_minus_divide)
    qed
    ultimately show ?thesis by (simp add: e)
  qed
  then show "2 powi expo x \<le> \<bar>x\<bar>" "\<bar>x\<bar> < 2 powi (expo x + 1)" by simp_all
qed

lemma expo_lessI: "x \<noteq> 0 \<Longrightarrow> \<bar>x\<bar> < 2 powi k \<Longrightarrow> expo x < k"
proof (rule ccontr)
  assume x: "x \<noteq> 0" and lt: "\<bar>x\<bar> < 2 powi k" and "\<not> expo x < k"
  then have "k \<le> expo x" by simp
  then have "(2::real) powi k \<le> 2 powi expo x" by (rule power_int_increasing) simp
  with expo_bounds(1)[OF x] lt show False by linarith
qed

lemma expo_geI: "x \<noteq> 0 \<Longrightarrow> 2 powi k \<le> \<bar>x\<bar> \<Longrightarrow> k \<le> expo x"
proof (rule ccontr)
  assume x: "x \<noteq> 0" and le: "2 powi k \<le> \<bar>x\<bar>" and "\<not> k \<le> expo x"
  then have "expo x + 1 \<le> k" by simp
  then have "(2::real) powi (expo x + 1) \<le> 2 powi k" by (rule power_int_increasing) simp
  with expo_bounds(2)[OF x] le show False by linarith
qed


lemma ties_even_of_int: "ties_even (of_int n) = n"
  by (simp add: ties_even_def)

lemma round53_exact:
  assumes n: "\<bar>n\<bar> < 2 ^ 53" and k: "- 1074 \<le> k"
  shows "round53 (of_int n * 2 powi k) = of_int n * 2 powi k"
proof (cases "n = 0")
  case True
  then show ?thesis by (simp add: round53_def)
next
  case False
  let ?x = "real_of_int n * 2 powi k"
  have pk: "0 < (2::real) powi k" by (simp add: zero_less_power_int)
  have x0: "?x \<noteq> 0" using False pk by simp
  have "real_of_int \<bar>n\<bar> < real_of_int (2 ^ 53)" using n by (rule of_int_less_iff[THEN iffD2])
  then have "\<bar>real_of_int n\<bar> < 2 powi 53" by simp
  then have "\<bar>?x\<bar> < 2 powi 53 * 2 powi k" using pk by (simp add: abs_mult)
  also have "\<dots> = 2 powi (53 + k)" by (simp add: power_int_add)
  finally have "expo ?x < 53 + k" by (rule expo_lessI[OF x0])
  then have j: "max (expo ?x) (- 1022) - 52 \<le> k" using k by simp
  define j where "j = max (expo ?x) (- 1022) - 52"
  have jk: "j \<le> k" using j by (simp add: j_def)
  have pj: "0 < (2::real) powi j" by (simp add: zero_less_power_int)
  have "(2::real) powi k = 2 powi (k - j) * 2 powi j"
    by (simp add: power_int_add[symmetric])
  moreover have "(2::real) powi (k - j) = real_of_int (2 ^ nat (k - j))"
    using jk by (simp add: power_int_def)
  ultimately have q: "?x / 2 powi j = real_of_int (n * 2 ^ nat (k - j))"
    using pj by simp
  have "round53 ?x = real_of_int (ties_even (?x / 2 powi j)) * 2 powi j"
    using x0 by (simp add: round53_def Let_def j_def)
  also have "\<dots> = (?x / 2 powi j) * 2 powi j"
    unfolding q ties_even_of_int ..
  also have "\<dots> = ?x" using pj by simp
  finally show ?thesis .
qed

lemma rnd_exact:
  assumes n: "\<bar>n\<bar> < 2 ^ 53" and k: "- 1074 \<le> k" "k \<le> 971"
  shows "rnd (of_int n * 2 powi k) = Fin (of_int n * 2 powi k)"
proof -
  let ?x = "real_of_int n * 2 powi k"
  have r: "round53 ?x = ?x" by (rule round53_exact[OF n k(1)])
  have "\<not> (?x \<noteq> 0 \<and> 1024 \<le> expo ?x)"
  proof
    assume a: "?x \<noteq> 0 \<and> 1024 \<le> expo ?x"
    have pk: "0 < (2::real) powi k" by (simp add: zero_less_power_int)
    have "real_of_int \<bar>n\<bar> < real_of_int (2 ^ 53)" using n by (rule of_int_less_iff[THEN iffD2])
    then have "\<bar>real_of_int n\<bar> < 2 powi 53" by simp
    then have "\<bar>?x\<bar> < 2 powi 53 * 2 powi k" using pk by (simp add: abs_mult)
    also have "\<dots> = 2 powi (53 + k)" by (simp add: power_int_add)
    finally have "expo ?x < 53 + k" using a by (intro expo_lessI) auto
    with k(2) a show False by simp
  qed
  then show ?thesis by (simp add: rnd_def r Let_def)
qed

lemma rnd_of_int: "\<bar>n\<bar> < 2 ^ 53 \<Longrightarrow> rnd (of_int n) = Fin (of_int n)"
  using rnd_exact[of n 0] by simp

lemma rnd_numeral [simp]: "numeral w < (2::int) ^ 53 \<Longrightarrow> rnd (numeral w) = Fin (numeral w)"
  using rnd_of_int[of "numeral w"] by simp

lemma rnd_0 [simp]: "rnd 0 = Fin 0"
  by (simp add: rnd_def round53_def)

lemma rnd_1 [simp]: "rnd 1 = Fin 1"
  using rnd_of_int[of 1] by simp

lemma ties_even_nonneg: "0 \<le> r \<Longrightarrow> 0 \<le> ties_even r"
  by (auto simp: ties_even_def Let_def)

lemma ties_even_le: "r \<le> of_int m \<Longrightarrow> ties_even r \<le> m"
proof -
  assume a: "r \<le> of_int m"
  have fl: "\<lfloor>r\<rfloor> \<le> m" using floor_mono[OF a] by simp
  show ?thesis
  proof (cases "\<lfloor>r\<rfloor> = m")
    case True
    then have "r = of_int m" using a by linarith
    then show ?thesis by (simp add: ties_even_def)
  next
    case False
    with fl have "\<lfloor>r\<rfloor> + 1 \<le> m" by simp
    then show ?thesis by (auto simp: ties_even_def Let_def)
  qed
qed

lemma round53_shape:
  assumes x: "0 < x" and e: "- 1022 \<le> expo x"
  shows "\<exists>n. round53 x = of_int n * 2 powi (expo x - 52) \<and> 0 \<le> n \<and> n \<le> 2 ^ 53"
proof -
  let ?u = "(2::real) powi (expo x - 52)"
  let ?n = "ties_even (x / ?u)"
  have pu: "0 < ?u" by (simp add: zero_less_power_int)
  have r: "round53 x = of_int ?n * ?u"
    using x e by (simp add: round53_def Let_def max_def)
  have "0 \<le> x / ?u" using x pu by simp
  then have n0: "0 \<le> ?n" by (rule ties_even_nonneg)
  have "x < 2 powi (expo x + 1)" using expo_bounds(2)[of x] x by simp
  also have "(2::real) powi (expo x + 1) = 2 powi 53 * ?u"
    using power_int_add[of "2::real" 53 "expo x - 52"] by (simp add: add.commute)
  finally have "x / ?u < 2 powi 53" using pu by (simp add: field_simps)
  then have "x / ?u \<le> real_of_int (2 ^ 53)" by simp
  then have "?n \<le> 2 ^ 53" by (rule ties_even_le)
  with r n0 show ?thesis by blast
qed

lemma micros_shape:
  "\<exists>y. micros dt = Fin y \<and> 0 \<le> y \<and> (500000 < y \<longrightarrow> (\<exists>m. y = of_int m * 2 powi (- 34)))"
proof (cases "dt = 0")
  case True
  then show ?thesis by (simp add: micros_def of_u32_def)
next
  case False
  define x where "x = real_of_int (uint dt) / 600"
  have "uint dt \<noteq> 0" using False by (simp add: uint_0_iff)
  then have u0: "0 < uint dt" using uint_ge_0[of dt] by linarith
  then have u1: "1 \<le> real_of_int (uint dt)" by linarith
  have "uint dt < 2 ^ 32" using uint_bounded[of dt] by simp
  then have "real_of_int (uint dt) < real_of_int (2 ^ 32)" by (rule of_int_less_iff[THEN iffD2])
  then have u2: "real_of_int (uint dt) < 4294967296" by simp
  have x0: "0 < x" using u1 by (simp add: x_def)
  have xhi: "\<bar>x\<bar> < 2 powi 23" using u2 u1 by (simp add: x_def)
  have xlo: "2 powi (- 10) \<le> \<bar>x\<bar>" using u1 by (simp add: x_def power_int_minus_divide)
  have e1: "expo x < 23" using xhi x0 by (intro expo_lessI) auto
  have e2: "- 10 \<le> expo x" using xlo x0 by (intro expo_geI) auto
  from round53_shape[OF x0] e2 obtain n where
    n: "round53 x = of_int n * 2 powi (expo x - 52)" "0 \<le> n" "n \<le> 2 ^ 53"
    by force
  define y where "y = round53 x"
  have yn: "y = of_int n * 2 powi (expo x - 52)" by (simp add: y_def n(1))
  have pu: "0 < (2::real) powi (expo x - 52)" by (simp add: zero_less_power_int)
  have y0: "0 \<le> y" using n(2) pu by (simp add: yn)
  have "real_of_int n \<le> real_of_int (2 ^ 53)" using n(3) by (rule of_int_le_iff[THEN iffD2])
  then have "real_of_int n \<le> 2 powi 53" by simp
  then have "y \<le> 2 powi 53 * 2 powi (expo x - 52)" using pu by (simp add: yn)
  also have "\<dots> = 2 powi (expo x + 1)"
    using power_int_add[of "2::real" 53 "expo x - 52"] by (simp add: add.commute)
  finally have yhi: "y \<le> 2 powi (expo x + 1)" .
  have "(2::real) powi (expo x + 1) \<le> 2 powi 23" using e1 by (intro power_int_increasing) auto
  with yhi have "y < 2 powi 24" by simp
  then have nov: "\<not> (y \<noteq> 0 \<and> 1024 \<le> expo y)"
    using y0 expo_lessI[of y 24] by auto
  have "micros dt = rnd x" using x0 by (simp add: micros_def of_u32_def x_def)
  then have m: "micros dt = Fin y"
    using nov by (simp add: rnd_def Let_def y_def)
  have "\<exists>m. y = of_int m * 2 powi (- 34)" if big: "500000 < y"
  proof -
    have "18 \<le> expo x"
    proof (rule ccontr)
      assume "\<not> 18 \<le> expo x"
      then have "expo x + 1 \<le> 18" by simp
      then have "(2::real) powi (expo x + 1) \<le> 2 powi 18" by (intro power_int_increasing) auto
      with yhi big show False by simp
    qed
    then have "(2::real) powi (expo x - 18) = real_of_int (2 ^ nat (expo x - 18))"
      by (simp add: power_int_def)
    moreover have "(2::real) powi (expo x - 52) = 2 powi (expo x - 18) * 2 powi (- 34)"
      using power_int_add[of "2::real" "expo x - 18" "- 34"] by simp
    ultimately have "(2::real) powi (expo x - 52) = real_of_int (2 ^ nat (expo x - 18)) * 2 powi (- 34)"
      by simp
    then have "y = real_of_int (n * 2 ^ nat (expo x - 18)) * 2 powi (- 34)"
      by (simp add: yn)
    then show ?thesis by blast
  qed
  with m y0 show ?thesis by blast
qed

section \<open>Facts about the drift record\<close>

lemma sub_from_span_exact:
  assumes y: "y = of_int m * 2 powi (- 34)" and lo: "500000 < y" and hi: "y < 1000000"
  shows "rnd (1000000 - y) = Fin (1000000 - y)"
proof -
  define K where "K = 17179869184000000 - m"
  have p: "(2::real) powi (- 34) = 1 / 17179869184" by (simp add: power_int_minus_divide)
  have z: "1000000 - y = of_int K * 2 powi (- 34)"
    by (simp add: K_def y p)
  have "real_of_int m < 17179869184000000" using hi by (simp add: y p)
  then have m1: "m < 17179869184000000" by linarith
  have "8589934592000000 < real_of_int m" using lo by (simp add: y p)
  then have m2: "8589934592000000 < m" by linarith
  have "\<bar>K\<bar> < 2 ^ 53" using m1 m2 by (simp add: K_def)
  then show ?thesis unfolding z by (rule rnd_exact) simp_all
qed

lemma drifts_append [simp]: "drifts (xs @ ys) = drifts xs @ drifts ys"
  by (induction xs rule: drifts.induct) simp_all

lemma drift_record_neg:
  assumes "dgt (micros dt) (Fin 500000)" "dlt (micros dt) (Fin 1000000)"
  shows "drifts [drift_record n dt iv tm] = [dneg (dsub (Fin 1000000) (micros dt))]"
  using assms by (simp add: drift_record_def)

lemma drift_record_beyond:
  assumes "dgt (micros dt) (Fin 1000000)"
  shows "drifts [drift_record n dt iv tm] = [Fin 0]"
proof -
  obtain y where y: "micros dt = Fin y" using micros_shape[of dt] by blast
  with assms have "\<not> dlt (micros dt) (Fin 1000000)" by (simp add: dgt_def)
  with assms show ?thesis by (simp add: drift_record_def)
qed

lemma drift_record_below:
  assumes "dle (micros dt) (Fin 500000)"
  shows "drifts [drift_record n dt iv tm] = [micros dt]"
proof -
  obtain y where y: "micros dt = Fin y" using micros_shape[of dt] by blast
  with assms have "\<not> dgt (micros dt) (Fin 500000)" "\<not> dgt (micros dt) (Fin 1000000)"
    by (simp_all add: dgt_def)
  then show ?thesis by (simp add: drift_record_def)
qed

lemma drift_record_at_span:
  assumes "micros dt = Fin 1000000"
  shows "drifts [drift_record n dt iv tm] = [Fin 1000000]"
  using assms by (simp add: drift_record_def dgt_def)

lemma drift_record_in_span: "list_all in_span (drifts [drift_record n dt iv tm])"
proof -
  obtain y where y: "micros dt = Fin y" "0 \<le> y"
    "500000 < y \<longrightarrow> (\<exists>m. y = of_int m * 2 powi (- 34))"
    using micros_shape[of dt] by blast
  show ?thesis
  proof (cases "500000 < y \<and> y < 1000000")
    case True
    with y(3) obtain m where m: "y = of_int m * 2 powi (- 34)" by blast
    have "rnd (1000000 - y) = Fin (1000000 - y)"
      using sub_from_span_exact[OF m] True by simp
    then show ?thesis using True by (simp add: drift_record_def y(1) dgt_def)
  next
    case False
    then show ?thesis using y(2) by (auto simp: drift_record_def y(1) dgt_def)
  qed
qed

section \<open>Facts about one pass\<close>

lemma drifts_loop_pps [simp]: "drifts (snd (loop_pps s)) = []"
  by (simp add: loop_pps_def Let_def)

lemma loop_interval_changed:
  assumes "intervalCycles s \<noteq> lastIntervalCycles s"
  shows "snd (loop_interval s) =
     [TimerUpdate (dsub (dmul (countRatio s) (tcxoMicros s)) fudge),
      drift_record (intervalCount s + 1) (intervalCycles s - ppsCycles s)
        (dsub (dmul (countRatio s) (tcxoMicros s)) fudge) (tcxoMicros s)]"
  using assms by (simp add: loop_interval_def Let_def)

lemma loop_interval_unchanged:
  assumes "intervalCycles s = lastIntervalCycles s"
  shows "loop_interval s = (s, [])"
  using assms by (simp add: loop_interval_def Let_def)

lemma snd_loop: "snd (loop fc mid s) =
    snd (loop_interval s) @ snd (loop_pps (fire_all mid (loop_freq fc (fst (loop_interval s)))))"
  by (simp add: loop_def Let_def split: prod.splits)

lemma fst_loop: "fst (loop fc mid s) =
    fst (loop_pps (fire_all mid (loop_freq fc (fst (loop_interval s)))))"
  by (simp add: loop_def Let_def split: prod.splits)

lemma drifts_loop:
  "drifts (snd (loop fc mid s)) =
     (if intervalCycles s \<noteq> lastIntervalCycles s
      then drifts [drift_record (intervalCount s + 1) (intervalCycles s - ppsCycles s)
         (dsub (dmul (countRatio s) (tcxoMicros s)) fudge) (tcxoMicros s)]
      else [])"
  by (simp add: snd_loop loop_interval_changed loop_interval_unchanged)

section \<open>Evaluating the scenarios\<close>

lemmas eval_defs = run_def ideal_def ideal_warm_up_def ideal_pass_def ideal_edge_def pps_edge_def loop_def
  loop_interval_def loop_freq_def loop_pps_def fire_all_def ppsInterrupt_def
  pps_store_cycles_def pps_store_count_def intervalInterrupt_def init_def Let_def
  micros_def of_u32_def

lemma run_ideal: "run ideal =
  (\<lparr>intervalCycles = 0, lastIntervalCycles = 0, ppsCycles = 1705033704,
     lastPpsCycles = 1705033704, ppsTcxoCount = 100000000,
     lastPpsTcxoCount = 90000000, tcxoMicros = Fin 1000000,
     firstTimeCount = 10, firstTimeFlag = False, interval = Fin 1000000,
     countRatio = Fin 1, intervalCount = 0, timerBegun = True\<rparr>,
  [FreqCountBegin 1000000, PrintWaiting, PrintDelta 10000000, PrintWaiting,
   PrintDelta 10000000, PrintWaiting, PrintDelta 10000000, PrintWaiting,
   PrintDelta 10000000, PrintWaiting, PrintDelta 10000000, PrintWaiting,
   PrintDelta 10000000, PrintWaiting, PrintDelta 10000000, PrintWaiting,
   PrintDelta 10000000, PrintWaiting, PrintDelta 10000000, PrintWaiting,
   TimerBegin (Fin 1000000), PrintCalibrated])"
  by (simp add: eval_defs)

lemma after_ideal_eq: "after_ideal dt =
  \<lparr>intervalCycles = 1705033704 + dt, lastIntervalCycles = 0, ppsCycles = 1705033704,
     lastPpsCycles = 1705033704, ppsTcxoCount = 100000000,
     lastPpsTcxoCount = 90000000, tcxoMicros = Fin 1000000,
     firstTimeCount = 10, firstTimeFlag = False, interval = Fin 1000000,
     countRatio = Fin 1, intervalCount = 0, timerBegun = True\<rparr>"
  by (simp add: after_ideal_def run_ideal intervalInterrupt_def)

lemma run_from_Cons:
  "run_from s (e # es) =
     (fst (run_from (fst (step e s)) es), snd (step e s) @ snd (run_from (fst (step e s)) es))"
  by (simp add: Let_def split: prod.splits)

lemma run_from_append:
  "run_from s (es @ es') =
     (fst (run_from (fst (run_from s es)) es'), snd (run_from s es) @ snd (run_from (fst (run_from s es)) es'))"
  by (induction es arbitrary: s) (simp_all add: Let_def split: prod.splits)


section \<open>Drift reporting\<close>

lemma drifts_run_from: "list_all in_span (drifts (snd (run_from s es)))"
proof (induction es arbitrary: s)
  case Nil
  show ?case by simp
next
  case (Cons e es)
  have "list_all in_span (drifts (snd (step e s)))"
  proof (cases e)
    case (Interrupt i)
    then show ?thesis by simp
  next
    case (LoopPass fc mid)
    then show ?thesis using drift_record_in_span by (simp add: drifts_loop)
  qed
  with Cons.IH show ?case by (simp add: run_from_Cons del: run_from.simps)
qed

lemma one_decimal_bounds:
  assumes "0 \<le> x" "x \<le> real_of_int k"
  shows "0 \<le> one_decimal x" "one_decimal x \<le> real_of_int k"
proof -
  have "0 \<le> ties_even (10 * x)" using assms(1) by (intro ties_even_nonneg) simp
  then show "0 \<le> one_decimal x" by (simp add: one_decimal_def)
  have "10 * x \<le> real_of_int (10 * k)" using assms(2) by simp
  then have "ties_even (10 * x) \<le> 10 * k" by (rule ties_even_le)
  then have "real_of_int (ties_even (10 * x)) \<le> real_of_int (10 * k)"
    by (rule of_int_le_iff[THEN iffD2])
  then show "one_decimal x \<le> real_of_int k" by (simp add: one_decimal_def)
qed

lemma printed_drifts_append [simp]:
  "printed_drifts (xs @ ys) = printed_drifts xs @ printed_drifts ys"
  by (induction xs rule: printed_drifts.induct) simp_all

lemma drift_record_printed:
  "list_all in_printed_span (printed_drifts [drift_record n dt iv tm])"
proof -
  obtain y where y: "micros dt = Fin y" "0 \<le> y"
    "500000 < y \<longrightarrow> (\<exists>m. y = of_int m * 2 powi (- 34))"
    using micros_shape[of dt] by blast
  show ?thesis
  proof (cases "500000 < y \<and> y < 1000000")
    case True
    with y(3) obtain m where m: "y = of_int m * 2 powi (- 34)" by blast
    have e: "rnd (1000000 - y) = Fin (1000000 - y)"
      using sub_from_span_exact[OF m] True by simp
    have "0 \<le> 1000000 - y" "1000000 - y \<le> real_of_int 500000" using True by simp_all
    from one_decimal_bounds[OF this]
    have "0 \<le> one_decimal (1000000 - y)" "one_decimal (1000000 - y) \<le> 500000" by simp_all
    then show ?thesis using True by (simp add: drift_record_def Let_def y(1) dgt_def e)
  next
    case False
    show ?thesis
    proof (cases "1000000 < y")
      case True
      then show ?thesis by (simp add: drift_record_def Let_def y(1) dgt_def one_decimal_def ties_even_def)
    next
      case big: False
      have "0 \<le> y" "y \<le> real_of_int 1000000" using y(2) big by simp_all
      from one_decimal_bounds[OF this]
      have "0 \<le> one_decimal y" "one_decimal y \<le> 1000000" by simp_all
      then show ?thesis using False big by (auto simp: drift_record_def Let_def y(1) dgt_def)
    qed
  qed
qed

lemma printed_drifts_loop:
  "printed_drifts (snd (loop fc mid s)) =
     (if intervalCycles s \<noteq> lastIntervalCycles s
      then printed_drifts [drift_record (intervalCount s + 1) (intervalCycles s - ppsCycles s)
         (dsub (dmul (countRatio s) (tcxoMicros s)) fudge) (tcxoMicros s)]
      else [])"
proof -
  have "printed_drifts (snd (loop_pps t)) = []" for t
    by (simp add: loop_pps_def Let_def)
  then show ?thesis
    by (simp add: snd_loop loop_interval_changed loop_interval_unchanged)
qed

lemma printed_drifts_run_from:
  "list_all in_printed_span (printed_drifts (snd (run_from s es)))"
proof (induction es arbitrary: s)
  case Nil
  show ?case by simp
next
  case (Cons e es)
  have "list_all in_printed_span (printed_drifts (snd (step e s)))"
  proof (cases e)
    case (Interrupt i)
    then show ?thesis by simp
  next
    case (LoopPass fc mid)
    then show ?thesis using drift_record_printed by (simp add: printed_drifts_loop)
  qed
  with Cons.IH show ?case by (simp add: run_from_Cons del: run_from.simps)
qed

lemma just_past_half_span:
  "micros 300000001 = Fin (8589934620633115 / 17179869184)"
  "dsub (Fin 1000000) (Fin (8589934620633115 / 17179869184)) = Fin (8589934563366885 / 17179869184)"
  "one_decimal (8589934563366885 / 17179869184) = 500000"
  by code_simp+

lemma around_full_span:
  "micros 599999999 = Fin (4294967288841721 / 4294967296)"
  "dsub (Fin 1000000) (Fin (4294967288841721 / 4294967296)) = Fin (7158279 / 4294967296)"
  "micros 600000001 = Fin (4294967303158279 / 4294967296)"
  by code_simp+

text \<open>
  C2. When the main loop sees a new interval capture, it converts the cycle difference to
  microseconds \<open>dtus\<close>. If \<open>500000 < dtus < 1000000\<close> the record reports
  \<open>-(1000000 - dtus)\<close>; if \<open>dtus > 1000000\<close> it reports 0; if \<open>dtus \<le> 500000\<close> it
  reports \<open>dtus\<close> unchanged.
\<close>

theorem drift_sign_convention:
  assumes "intervalCycles s \<noteq> lastIntervalCycles s"
  shows "(dgt (micros (intervalCycles s - ppsCycles s)) (Fin 500000) \<and>
          dlt (micros (intervalCycles s - ppsCycles s)) (Fin 1000000) \<longrightarrow>
            drifts (snd (loop fc mid s)) =
              [dneg (dsub (Fin 1000000) (micros (intervalCycles s - ppsCycles s)))]) \<and>
         (dgt (micros (intervalCycles s - ppsCycles s)) (Fin 1000000) \<longrightarrow>
            drifts (snd (loop fc mid s)) = [Fin 0]) \<and>
         (dle (micros (intervalCycles s - ppsCycles s)) (Fin 500000) \<longrightarrow>
            drifts (snd (loop fc mid s)) = [micros (intervalCycles s - ppsCycles s)])"
  using assms
  by (simp add: drifts_loop drift_record_neg drift_record_beyond drift_record_below)

theorem drift_sign_convention_witness:
  "micros (intervalCycles (after_ideal 450000000) - ppsCycles (after_ideal 450000000)) = Fin 750000 \<and>
   drifts (snd (loop None [] (after_ideal 450000000))) = [Fin (- 250000)] \<and>
   micros (intervalCycles (after_ideal 900000000) - ppsCycles (after_ideal 900000000)) = Fin 1500000 \<and>
   drifts (snd (loop None [] (after_ideal 900000000))) = [Fin 0] \<and>
   micros (intervalCycles (after_ideal 150000000) - ppsCycles (after_ideal 150000000)) = Fin 250000 \<and>
   drifts (snd (loop None [] (after_ideal 150000000))) = [Fin 250000]"
  using drift_sign_convention[of "after_ideal 450000000" None "[]"]
    drift_sign_convention[of "after_ideal 900000000" None "[]"]
    drift_sign_convention[of "after_ideal 150000000" None "[]"]
  by (simp add: after_ideal_eq micros_def of_u32_def dgt_def)

lemma run_ideal_then:
  "run (ideal @ es) =
     (fst (run_from (fst (run ideal)) es), snd (run ideal) @ snd (run_from (fst (run ideal)) es))"
  by (simp add: run_def run_from_append)

text \<open>
  C7. The program clamps a drift sample beyond the full span of 1,000,000 microseconds to
  zero, and a sample just below the full span is reported as a small negative drift; but
  the sample of exactly 1,000,000.0 microseconds (the interval handler running
  600,000,000 cycles after the reference edge) passes neither \<^verbatim>\<open>dtus < 1000000.0\<close> nor
  \<^verbatim>\<open>dtus > 1000000.0\<close> and is reported as 1,000,000.0. One cycle earlier the report is
  about -0.0017, one cycle later it is 0.
\<close>

theorem full_span_sample_not_clamped:
  "micros (intervalCycles (after_ideal 600000000) - ppsCycles (after_ideal 600000000)) = Fin 1000000 \<and>
   drifts (snd (loop None [] (after_ideal 600000000))) = [Fin 1000000] \<and>
   drifts (snd (loop None [] (after_ideal 600000000))) \<noteq> [Fin 0] \<and>
   drifts (snd (loop None [] (after_ideal 599999999))) = [Fin (- (7158279 / 4294967296))] \<and>
   drifts (snd (loop None [] (after_ideal 600000001))) = [Fin 0]"
proof -
  have "drifts (snd (loop None [] (after_ideal 599999999))) = [Fin (- (7158279 / 4294967296))]"
    using around_full_span
    by (simp add: after_ideal_eq drifts_loop drift_record_def Let_def dgt_def)
  moreover have "drifts (snd (loop None [] (after_ideal 600000001))) = [Fin 0]"
    using around_full_span
    by (simp add: after_ideal_eq drifts_loop drift_record_def Let_def dgt_def)
  ultimately show ?thesis
    by (simp add: after_ideal_eq micros_def of_u32_def drifts_loop drift_record_at_span)
qed

text \<open>
  C10, as the claim states it, fails on the serial line. When the interval handler runs
  300,000,001 cycles after the reference edge, the value handed to the formatter is about
  -499999.9983, strictly above -500,000, but \<^verbatim>\<open>-%.1f\<close> prints it as -500000.0.
\<close>

theorem half_span_printed:
  "drifts (snd (loop None [] (after_ideal 300000001)))
     = [Fin (- (8589934563366885 / 17179869184))] \<and>
   printed_drifts (snd (loop None [] (after_ideal 300000001))) = [Some (- 500000)] \<and>
   \<not> (- 500000 < (- 500000 :: real))"
  using just_past_half_span
  by (simp add: after_ideal_eq drifts_loop printed_drifts_loop drift_record_def Let_def dgt_def)

text \<open>
  C10, amended. In every run, every drift value handed to the formatter lies in the
  interval \<open>(-500000, 1000000]\<close>, and every drift as it is printed, with one decimal, lies
  in the closed interval \<open>[-500000.0, 1000000.0]\<close>.
\<close>

theorem drift_within_span:
  "list_all in_span (drifts (snd (run es))) \<and>
   list_all in_printed_span (printed_drifts (snd (run es)))"
  unfolding run_def using drifts_run_from printed_drifts_run_from by blast

theorem drift_within_span_witness:
  "drifts (snd (run (ideal @ [Interrupt (Ivl (1705033704 + 450000000)), LoopPass None []])))
     = [Fin (- 250000)] \<and>
   list_all in_span [Fin (- 250000)] \<and>
   printed_drifts (snd (run (ideal @ [Interrupt (Ivl (1705033704 + 450000000)), LoopPass None []])))
     = [Some (- 250000)] \<and>
   list_all in_printed_span [Some (- 250000)]"
  using drift_within_span[of "ideal @ [Interrupt (Ivl (1705033704 + 450000000)), LoopPass None []]"]
  by (simp add: run_ideal_then run_ideal eval_defs drift_record_def dgt_def one_decimal_def
        ties_even_def)

section \<open>What the parts of a pass leave unchanged\<close>

lemma fire_all_Nil [simp]: "fire_all [] s = s"
  by (simp add: fire_all_def)

lemma fire_all_Cons [simp]: "fire_all (i # irqs) s = fire_all irqs (fire i s)"
  by (simp add: fire_all_def)

lemma fire_keeps [simp]:
  "tcxoMicros (fire i s) = tcxoMicros s" "firstTimeFlag (fire i s) = firstTimeFlag s"
  "firstTimeCount (fire i s) = firstTimeCount s" "countRatio (fire i s) = countRatio s"
  "interval (fire i s) = interval s" "timerBegun (fire i s) = timerBegun s"
  "lastPpsCycles (fire i s) = lastPpsCycles s" "lastIntervalCycles (fire i s) = lastIntervalCycles s"
  "intervalCount (fire i s) = intervalCount s"
  by (cases i; simp add: ppsInterrupt_def pps_store_cycles_def pps_store_count_def
        intervalInterrupt_def)+

lemma fire_all_keeps [simp]:
  "tcxoMicros (fire_all irqs s) = tcxoMicros s" "firstTimeFlag (fire_all irqs s) = firstTimeFlag s"
  "firstTimeCount (fire_all irqs s) = firstTimeCount s" "countRatio (fire_all irqs s) = countRatio s"
  "interval (fire_all irqs s) = interval s" "timerBegun (fire_all irqs s) = timerBegun s"
  "lastPpsCycles (fire_all irqs s) = lastPpsCycles s"
  "lastIntervalCycles (fire_all irqs s) = lastIntervalCycles s"
  "intervalCount (fire_all irqs s) = intervalCount s"
  by (induction irqs arbitrary: s; simp)+

lemma fire_not_begun: "\<not> timerBegun s \<Longrightarrow> intervalCycles (fire i s) = intervalCycles s"
  by (cases i) (simp_all add: ppsInterrupt_def pps_store_cycles_def pps_store_count_def)

lemma fire_all_not_begun: "\<not> timerBegun s \<Longrightarrow> intervalCycles (fire_all irqs s) = intervalCycles s"
  by (induction irqs arbitrary: s) (simp_all add: fire_not_begun)

lemma loop_freq_keeps [simp]:
  "firstTimeFlag (loop_freq fc s) = firstTimeFlag s" "firstTimeCount (loop_freq fc s) = firstTimeCount s"
  "countRatio (loop_freq fc s) = countRatio s" "interval (loop_freq fc s) = interval s"
  "timerBegun (loop_freq fc s) = timerBegun s" "lastPpsCycles (loop_freq fc s) = lastPpsCycles s"
  "ppsCycles (loop_freq fc s) = ppsCycles s" "ppsTcxoCount (loop_freq fc s) = ppsTcxoCount s"
  "intervalCycles (loop_freq fc s) = intervalCycles s"
  "lastIntervalCycles (loop_freq fc s) = lastIntervalCycles s"
  "intervalCount (loop_freq fc s) = intervalCount s"
  "lastPpsTcxoCount (loop_freq fc s) = lastPpsTcxoCount s"
  by (cases fc; simp add: loop_freq_def)+

lemma loop_freq_tcxoMicros:
  "tcxoMicros (loop_freq fc s) =
     (case fc of None \<Rightarrow> tcxoMicros s
      | Some n \<Rightarrow> dmul (ddiv (Fin 10000000) (of_u32 n)) (Fin 1000000))"
  by (cases fc) (simp_all add: loop_freq_def)

lemma loop_interval_keeps [simp]:
  "tcxoMicros (fst (loop_interval s)) = tcxoMicros s"
  "firstTimeFlag (fst (loop_interval s)) = firstTimeFlag s"
  "firstTimeCount (fst (loop_interval s)) = firstTimeCount s"
  "countRatio (fst (loop_interval s)) = countRatio s"
  "timerBegun (fst (loop_interval s)) = timerBegun s"
  "lastPpsCycles (fst (loop_interval s)) = lastPpsCycles s"
  "ppsCycles (fst (loop_interval s)) = ppsCycles s"
  "ppsTcxoCount (fst (loop_interval s)) = ppsTcxoCount s"
  "lastPpsTcxoCount (fst (loop_interval s)) = lastPpsTcxoCount s"
  "intervalCycles (fst (loop_interval s)) = intervalCycles s"
  "lastIntervalCycles (fst (loop_interval s)) = intervalCycles s"
  by (simp_all add: loop_interval_def Let_def)

lemma loop_interval_interval:
  "interval (fst (loop_interval s)) =
     (if intervalCycles s \<noteq> lastIntervalCycles s
      then dsub (dmul (countRatio s) (tcxoMicros s)) fudge else interval s)"
  by (simp add: loop_interval_def Let_def)

lemma loop_pps_keeps [simp]:
  "tcxoMicros (fst (loop_pps s)) = tcxoMicros s"
  "ppsCycles (fst (loop_pps s)) = ppsCycles s"
  "lastPpsCycles (fst (loop_pps s)) = ppsCycles s"
  "ppsTcxoCount (fst (loop_pps s)) = ppsTcxoCount s"
  "intervalCycles (fst (loop_pps s)) = intervalCycles s"
  "lastIntervalCycles (fst (loop_pps s)) = lastIntervalCycles s"
  "intervalCount (fst (loop_pps s)) = intervalCount s"
  by (simp_all add: loop_pps_def Let_def)

text \<open>The three outcomes of the reference-edge branch.\<close>

lemma loop_pps_idle:
  assumes "ppsCycles s = lastPpsCycles s \<or> (10 \<le> firstTimeCount s \<and> \<not> firstTimeFlag s)"
  shows "snd (loop_pps s) = []" "firstTimeFlag (fst (loop_pps s)) = firstTimeFlag s"
    "firstTimeCount (fst (loop_pps s)) = firstTimeCount s" "countRatio (fst (loop_pps s)) = countRatio s"
    "interval (fst (loop_pps s)) = interval s" "timerBegun (fst (loop_pps s)) = timerBegun s"
  using assms by (auto simp: loop_pps_def Let_def)

lemma loop_pps_warmup:
  assumes "ppsCycles s \<noteq> lastPpsCycles s" "firstTimeCount s < 10"
  shows "snd (loop_pps s) =
      (if firstTimeCount s = 0 then [FreqCountBegin 1000000, PrintWaiting]
       else [PrintDelta (ppsTcxoCount s - lastPpsTcxoCount s), PrintWaiting])"
    "firstTimeFlag (fst (loop_pps s)) = firstTimeFlag s"
    "firstTimeCount (fst (loop_pps s)) = firstTimeCount s + 1"
    "countRatio (fst (loop_pps s)) = countRatio s"
    "interval (fst (loop_pps s)) = interval s" "timerBegun (fst (loop_pps s)) = timerBegun s"
  using assms by (auto simp: loop_pps_def Let_def)

lemma loop_pps_calibrate:
  assumes "ppsCycles s \<noteq> lastPpsCycles s" "10 \<le> firstTimeCount s" "firstTimeFlag s"
  shows "snd (loop_pps s) =
      [TimerBegin (dmul (ddiv (micros (ppsCycles s - lastPpsCycles s)) (tcxoMicros s)) (tcxoMicros s)),
       PrintCalibrated]"
    "\<not> firstTimeFlag (fst (loop_pps s))"
    "firstTimeCount (fst (loop_pps s)) = firstTimeCount s"
    "countRatio (fst (loop_pps s)) = ddiv (micros (ppsCycles s - lastPpsCycles s)) (tcxoMicros s)"
    "interval (fst (loop_pps s)) =
       dmul (ddiv (micros (ppsCycles s - lastPpsCycles s)) (tcxoMicros s)) (tcxoMicros s)"
    "timerBegun (fst (loop_pps s))"
  using assms by (auto simp: loop_pps_def Let_def)

lemma loop_pps_cases:
  obtains (idle) "ppsCycles s = lastPpsCycles s \<or> (10 \<le> firstTimeCount s \<and> \<not> firstTimeFlag s)"
  | (warmup) "ppsCycles s \<noteq> lastPpsCycles s" "firstTimeCount s < 10"
  | (calibrate) "ppsCycles s \<noteq> lastPpsCycles s" "10 \<le> firstTimeCount s" "firstTimeFlag s"
  by fastforce

section \<open>Invariants of runs\<close>

lemma run_from_invariant:
  assumes "I s acc"
    and "\<And>e s acc. I s acc \<Longrightarrow> I (fst (step e s)) (acc @ snd (step e s))"
  shows "I (fst (run_from s es)) (acc @ snd (run_from s es))"
  using assms(1)
proof (induction es arbitrary: s acc)
  case Nil
  then show ?case by simp
next
  case (Cons e es)
  from assms(2)[OF Cons.prems] have "I (fst (step e s)) (acc @ snd (step e s))" .
  from Cons.IH[OF this] show ?case by (simp add: run_from_Cons del: run_from.simps)
qed

lemma run_invariant:
  assumes "I init []"
    and "\<And>e s acc. I s acc \<Longrightarrow> I (fst (step e s)) (acc @ snd (step e s))"
  shows "I (fst (run es)) (snd (run es))"
  using run_from_invariant[of I init "[]" es, OF assms] by (simp add: run_def)

lemma timer_begins_append [simp]: "timer_begins (xs @ ys) = timer_begins xs @ timer_begins ys"
  by (induction xs rule: timer_begins.induct) simp_all

lemma timer_updates_append [simp]: "timer_updates (xs @ ys) = timer_updates xs @ timer_updates ys"
  by (induction xs rule: timer_updates.induct) simp_all

lemma calibrations_append [simp]: "calibrations (xs @ ys) = calibrations xs + calibrations ys"
  by (induction xs rule: calibrations.induct) simp_all


lemma begins_first_append:
  "begins_first (xs @ ys) =
     (if timer_begins xs = [] \<and> timer_updates xs = [] \<and> drifts xs = []
      then begins_first ys else begins_first xs)"
  by (induction xs rule: begins_first.induct) simp_all

text \<open>Outputs of one pass, by kind.\<close>

lemma drift_record_kind [simp]:
  "timer_begins [drift_record n dt iv tm] = []" "timer_updates [drift_record n dt iv tm] = []"
  "calibrations [drift_record n dt iv tm] = 0" "warmups_before_calibration [drift_record n dt iv tm] = 0"
  "drifts [drift_record n dt iv tm] \<noteq> []"
  by (simp_all add: drift_record_def Let_def)

lemma loop_interval_out:
  "timer_begins (snd (loop_interval s)) = []"
  "calibrations (snd (loop_interval s)) = 0"
  "warmups_before_calibration (snd (loop_interval s)) = 0"
  "timer_updates (snd (loop_interval s)) =
     (if intervalCycles s \<noteq> lastIntervalCycles s
      then [dsub (dmul (countRatio s) (tcxoMicros s)) fudge] else [])"
  using drift_record_kind[of "intervalCount s + 1" "intervalCycles s - ppsCycles s"
      "dsub (dmul (countRatio s) (tcxoMicros s)) fudge" "tcxoMicros s"]
  by (simp_all add: loop_interval_def Let_def)

lemma loop_pps_out:
  "timer_updates (snd (loop_pps s)) = []"
  by (cases s rule: loop_pps_cases)
     (simp_all add: loop_pps_idle loop_pps_warmup loop_pps_calibrate)

text \<open>While the first-time flag is set, the interval branch has never run.\<close>

lemma step_flag: "firstTimeFlag (fst (step e s)) \<Longrightarrow> firstTimeFlag s"
proof (cases e)
  case (Interrupt i)
  assume "firstTimeFlag (fst (step e s))"
  with Interrupt show ?thesis by simp
next
  case (LoopPass fc mid)
  let ?t = "fire_all mid (loop_freq fc (fst (loop_interval s)))"
  assume a: "firstTimeFlag (fst (step e s))"
  have t: "firstTimeFlag ?t = firstTimeFlag s" by simp
  show ?thesis
    by (cases ?t rule: loop_pps_cases)
       (use a LoopPass t in \<open>simp_all add: fst_loop loop_pps_idle loop_pps_warmup loop_pps_calibrate\<close>)
qed

lemma warmup_step:
  assumes I: "firstTimeFlag s \<longrightarrow> intervalCycles s = 0 \<and> lastIntervalCycles s = 0 \<and>
      \<not> timerBegun s \<and> timer_begins acc = [] \<and> timer_updates acc = [] \<and> drifts acc = []"
    and F: "firstTimeFlag (fst (step e s))"
  shows "intervalCycles (fst (step e s)) = 0 \<and> lastIntervalCycles (fst (step e s)) = 0 \<and>
      \<not> timerBegun (fst (step e s)) \<and> timer_begins (acc @ snd (step e s)) = [] \<and>
      timer_updates (acc @ snd (step e s)) = [] \<and> drifts (acc @ snd (step e s)) = []"
proof -
  from step_flag[OF F] I have s: "firstTimeFlag s" "intervalCycles s = 0" "lastIntervalCycles s = 0"
    "\<not> timerBegun s" "timer_begins acc = []" "timer_updates acc = []" "drifts acc = []"
    by simp_all
  show ?thesis
  proof (cases e)
    case (Interrupt i)
    then show ?thesis using s by (simp add: fire_not_begun)
  next
    case (LoopPass fc mid)
    let ?t = "fire_all mid (loop_freq fc (fst (loop_interval s)))"
    have li: "loop_interval s = (s, [])" using s by (simp add: loop_interval_unchanged)
    have t: "intervalCycles ?t = 0" "lastIntervalCycles ?t = 0" "\<not> timerBegun ?t" "firstTimeFlag ?t"
      using s by (simp_all add: fire_all_not_begun)
    from F LoopPass have F': "firstTimeFlag (fst (loop_pps ?t))" by (simp add: fst_loop)
    show ?thesis
    proof (cases ?t rule: loop_pps_cases)
      case idle
      then show ?thesis using s t LoopPass li by (simp add: fst_loop snd_loop loop_pps_idle)
    next
      case warmup
      then show ?thesis using s t LoopPass li by (simp add: fst_loop snd_loop loop_pps_warmup)
    next
      case calibrate
      then show ?thesis using F' by (simp add: loop_pps_calibrate)
    qed
  qed
qed

section \<open>Before calibration\<close>

lemma begins_first_step:
  assumes B: "begins_first acc"
    and I: "firstTimeFlag s \<longrightarrow> timer_begins acc = [] \<and> timer_updates acc = [] \<and> drifts acc = [] \<and>
        intervalCycles s = lastIntervalCycles s"
    and N: "\<not> firstTimeFlag s \<longrightarrow> timer_begins acc \<noteq> []"
  shows "begins_first (acc @ snd (step e s))"
proof (cases "firstTimeFlag s")
  case False
  with N B show ?thesis by (simp add: begins_first_append)
next
  case True
  with I have a: "timer_begins acc = []" "timer_updates acc = []" "drifts acc = []"
    "intervalCycles s = lastIntervalCycles s" by simp_all
  show ?thesis
  proof (cases e)
    case (Interrupt i)
    then show ?thesis using B by simp
  next
    case (LoopPass fc mid)
    let ?t = "fire_all mid (loop_freq fc (fst (loop_interval s)))"
    have li: "loop_interval s = (s, [])" using a by (simp add: loop_interval_unchanged)
    show ?thesis
      by (cases ?t rule: loop_pps_cases)
         (use a B LoopPass li in \<open>simp_all add: begins_first_append snd_loop loop_pps_idle
            loop_pps_warmup loop_pps_calibrate\<close>)
  qed
qed

lemma begun_step:
  assumes "\<not> firstTimeFlag s \<longrightarrow> timer_begins acc \<noteq> []"
  shows "\<not> firstTimeFlag (fst (step e s)) \<longrightarrow> timer_begins (acc @ snd (step e s)) \<noteq> []"
proof (cases "firstTimeFlag s")
  case False
  with assms show ?thesis by simp
next
  case True
  show ?thesis
  proof (cases e)
    case (Interrupt i)
    then show ?thesis using True by simp
  next
    case (LoopPass fc mid)
    let ?t = "fire_all mid (loop_freq fc (fst (loop_interval s)))"
    have t: "firstTimeFlag ?t" using True by simp
    show ?thesis
      by (cases ?t rule: loop_pps_cases)
         (use t LoopPass in \<open>simp_all add: fst_loop snd_loop loop_pps_idle
            loop_pps_warmup loop_pps_calibrate\<close>)
  qed
qed

lemma begins_first_invariant:
  "begins_first (snd (run es)) \<and>
   (\<not> firstTimeFlag (fst (run es)) \<longrightarrow> timer_begins (snd (run es)) \<noteq> []) \<and>
   (firstTimeFlag (fst (run es)) \<longrightarrow>
      intervalCycles (fst (run es)) = 0 \<and> lastIntervalCycles (fst (run es)) = 0 \<and>
      \<not> timerBegun (fst (run es)) \<and> timer_begins (snd (run es)) = [] \<and>
      timer_updates (snd (run es)) = [] \<and> drifts (snd (run es)) = [])"
proof (rule run_invariant[where I = "\<lambda>s acc. begins_first acc \<and>
     (\<not> firstTimeFlag s \<longrightarrow> timer_begins acc \<noteq> []) \<and>
     (firstTimeFlag s \<longrightarrow> intervalCycles s = 0 \<and>
        lastIntervalCycles s = 0 \<and> \<not> timerBegun s \<and> timer_begins acc = [] \<and>
        timer_updates acc = [] \<and> drifts acc = [])"], goal_cases)
  case 1
  show ?case by (simp add: init_def)
next
  case (2 e s acc)
  then have "begins_first (acc @ snd (step e s))"
    by (intro begins_first_step) auto
  moreover have "\<not> firstTimeFlag (fst (step e s)) \<longrightarrow> timer_begins (acc @ snd (step e s)) \<noteq> []"
    using 2 by (intro begun_step) auto
  moreover have "firstTimeFlag (fst (step e s)) \<longrightarrow>
      intervalCycles (fst (step e s)) = 0 \<and> lastIntervalCycles (fst (step e s)) = 0 \<and>
      \<not> timerBegun (fst (step e s)) \<and> timer_begins (acc @ snd (step e s)) = [] \<and>
      timer_updates (acc @ snd (step e s)) = [] \<and> drifts (acc @ snd (step e s)) = []"
    using 2 warmup_step[of s acc e] by blast
  ultimately show ?case by blast
qed

text \<open>
  C9. While \<^verbatim>\<open>firstTimeFlag\<close> is still true, \<^verbatim>\<open>intervalCycles\<close> and
  \<^verbatim>\<open>lastIntervalCycles\<close> are both 0, the timer has not been begun, the interval branch of
  the next pass does nothing, and no timer update and no drift record has been emitted. In
  every run, no \<^verbatim>\<open>myTimer.update\<close> and no drift record comes before the first
  \<^verbatim>\<open>myTimer.begin\<close>.
\<close>

theorem no_interval_processing_before_calibration:
  "begins_first (snd (run es)) \<and>
   (firstTimeFlag (fst (run es)) \<longrightarrow>
      intervalCycles (fst (run es)) = 0 \<and> lastIntervalCycles (fst (run es)) = 0 \<and>
      \<not> timerBegun (fst (run es)) \<and>
      loop_interval (fst (run es)) = (fst (run es), []) \<and>
      timer_updates (snd (run es)) = [] \<and> drifts (snd (run es)) = [])"
  using begins_first_invariant[of es] by (simp add: loop_interval_unchanged)

theorem no_interval_processing_before_calibration_witness:
  "firstTimeFlag (fst (run (concat (map ideal_pass [0, 1, 2])))) \<and>
   intervalCycles (fst (run (concat (map ideal_pass [0, 1, 2])))) = 0 \<and>
   lastIntervalCycles (fst (run (concat (map ideal_pass [0, 1, 2])))) = 0 \<and>
   timer_updates (snd (run (concat (map ideal_pass [0, 1, 2])))) = [] \<and>
   drifts (snd (run (concat (map ideal_pass [0, 1, 2])))) = [] \<and>
   begins_first (snd (run (concat (map ideal_pass [0, 1, 2]))))"
  using no_interval_processing_before_calibration[of "concat (map ideal_pass [0, 1, 2])"]
  by (simp add: eval_defs)

section \<open>Calibration and the timer\<close>

lemma run_ideal_warm_up: "run ideal_warm_up =
  (\<lparr>intervalCycles = 0, lastIntervalCycles = 0, ppsCycles = 1705033704,
     lastPpsCycles = 1105033704, ppsTcxoCount = 100000000,
     lastPpsTcxoCount = 90000000, tcxoMicros = Fin 1000000,
     firstTimeCount = 10, firstTimeFlag = True, interval = Fin 1000000,
     countRatio = Fin 1000000000000, intervalCount = 0, timerBegun = False\<rparr>,
  [FreqCountBegin 1000000, PrintWaiting, PrintDelta 10000000, PrintWaiting,
   PrintDelta 10000000, PrintWaiting, PrintDelta 10000000, PrintWaiting,
   PrintDelta 10000000, PrintWaiting, PrintDelta 10000000, PrintWaiting,
   PrintDelta 10000000, PrintWaiting, PrintDelta 10000000, PrintWaiting,
   PrintDelta 10000000, PrintWaiting, PrintDelta 10000000, PrintWaiting])"
  by (simp add: eval_defs)

lemma step_timer_begin:
  assumes "timer_begins (snd (step e s)) \<noteq> []"
  shows "firstTimeFlag s \<and> \<not> firstTimeFlag (fst (step e s)) \<and>
    calibrations (snd (step e s)) = 1 \<and>
    countRatio (fst (step e s)) =
      ddiv (micros (ppsCycles (fst (step e s)) - lastPpsCycles s)) (tcxoMicros (fst (step e s))) \<and>
    timer_begins (snd (step e s)) =
      [dmul (countRatio (fst (step e s))) (tcxoMicros (fst (step e s)))]"
proof (cases e)
  case (Interrupt i)
  with assms show ?thesis by simp
next
  case (LoopPass fc mid)
  let ?t = "fire_all mid (loop_freq fc (fst (loop_interval s)))"
  have t: "firstTimeFlag ?t = firstTimeFlag s" "lastPpsCycles ?t = lastPpsCycles s" by simp_all
  from assms LoopPass have b: "timer_begins (snd (loop_pps ?t)) \<noteq> []"
    by (simp add: snd_loop loop_interval_out)
  show ?thesis
  proof (cases ?t rule: loop_pps_cases)
    case idle
    with b show ?thesis by (simp add: loop_pps_idle)
  next
    case warmup
    with b show ?thesis by (simp add: loop_pps_warmup split: if_splits)
  next
    case calibrate
    then show ?thesis using t LoopPass
      by (simp add: fst_loop snd_loop loop_interval_out loop_pps_calibrate)
  qed
qed

text \<open>
  C4. While the calibration ratio has not been set (\<^verbatim>\<open>firstTimeFlag\<close> is true) the timer
  has not been begun. A step that calls \<^verbatim>\<open>myTimer.begin\<close> is the step that computes
  \<^verbatim>\<open>countRatio = ppsMicros / tcxoMicros\<close>, and the period it passes is exactly
  \<^verbatim>\<open>countRatio * tcxoMicros\<close>, without the fudge.
\<close>

theorem timer_started_at_calibration:
  "(firstTimeFlag (fst (run es)) \<longrightarrow>
      \<not> timerBegun (fst (run es)) \<and> timer_begins (snd (run es)) = []) \<and>
   (timer_begins (snd (step e (fst (run es)))) \<noteq> [] \<longrightarrow>
      firstTimeFlag (fst (run es)) \<and> \<not> firstTimeFlag (fst (step e (fst (run es)))) \<and>
      calibrations (snd (step e (fst (run es)))) = 1 \<and>
      countRatio (fst (step e (fst (run es)))) =
        ddiv (micros (ppsCycles (fst (step e (fst (run es)))) - lastPpsCycles (fst (run es))))
          (tcxoMicros (fst (step e (fst (run es))))) \<and>
      timer_begins (snd (step e (fst (run es)))) =
        [dmul (countRatio (fst (step e (fst (run es))))) (tcxoMicros (fst (step e (fst (run es)))))])"
  using begins_first_invariant[of es] step_timer_begin[of e "fst (run es)"] by blast

theorem timer_started_at_calibration_witness:
  "firstTimeFlag (fst (run ideal_warm_up)) \<and> \<not> timerBegun (fst (run ideal_warm_up)) \<and>
   timer_begins (snd (run ideal_warm_up)) = [] \<and>
   timer_begins (snd (step (LoopPass (Some 10000000) []) (fst (run ideal_warm_up)))) = [Fin 1000000] \<and>
   countRatio (fst (step (LoopPass (Some 10000000) []) (fst (run ideal_warm_up)))) = Fin 1 \<and>
   tcxoMicros (fst (step (LoopPass (Some 10000000) []) (fst (run ideal_warm_up)))) = Fin 1000000 \<and>
   \<not> firstTimeFlag (fst (step (LoopPass (Some 10000000) []) (fst (run ideal_warm_up))))"
  using timer_started_at_calibration[of ideal_warm_up "LoopPass (Some 10000000) []"]
  by (simp add: run_ideal_warm_up loop_def loop_interval_def loop_freq_def loop_pps_def Let_def
        micros_def of_u32_def)

section \<open>The oscillator measurement and the programmed interval\<close>

lemma loop_tcxoMicros:
  "tcxoMicros (fst (loop fc mid s)) =
     (case fc of None \<Rightarrow> tcxoMicros s
      | Some n \<Rightarrow> dmul (ddiv (Fin 10000000) (of_u32 n)) (Fin 1000000))"
  by (cases fc) (simp_all add: fst_loop loop_freq_tcxoMicros)

lemma tcxoMicros_run_from:
  "tcxoMicros (fst (run_from s es)) =
     (case measured es of None \<Rightarrow> tcxoMicros s
      | Some n \<Rightarrow> dmul (ddiv (Fin 10000000) (of_u32 n)) (Fin 1000000))"
proof (induction es arbitrary: s)
  case Nil
  show ?case by simp
next
  case (Cons e es)
  show ?case
  proof (cases e)
    case (Interrupt i)
    then show ?thesis using Cons.IH[of "fire i s"]
      by (simp add: run_from_Cons split: option.splits del: run_from.simps)
  next
    case (LoopPass fc mid)
    then show ?thesis using Cons.IH[of "fst (loop fc mid s)"]
      by (cases fc) (simp_all add: run_from_Cons loop_tcxoMicros split: option.splits del: run_from.simps)
  qed
qed

lemma five_ppm_fast:
  "dmul (ddiv (Fin 10000000) (Fin 10000050)) (Fin 1000000) = Fin (8589891642541787 / 8589934592)"
  by code_simp

lemma first_update_value:
  "dsub (dmul (Fin 1) (Fin 1000000)) fudge = Fin (8589934549050327 / 8589934592)"
  by code_simp

text \<open>
  C5. A pass of the main loop that finds a completed window of \<open>n\<close> pulses sets
  \<^verbatim>\<open>tcxoMicros\<close> to \<^verbatim>\<open>10000000.0 / n * 1000000.0\<close>; a pass that finds none leaves it
  unchanged. For \<open>n = 10000050\<close> the result is the binary64 value
  \<open>8589891642541787 / 2\<^sup>3\<^sup>3\<close>, within \<open>10\<^sup>-\<^sup>4\<close> of 999995.0.
\<close>

theorem tcxoMicros_recomputed:
  "tcxoMicros (fst (loop (Some n) mid s)) = dmul (ddiv (Fin 10000000) (of_u32 n)) (Fin 1000000) \<and>
   tcxoMicros (fst (loop None mid s)) = tcxoMicros s \<and>
   tcxoMicros (fst (loop (Some 10000050) mid s)) = Fin (8589891642541787 / 8589934592) \<and>
   \<bar>8589891642541787 / 8589934592 - 999995\<bar> < (1 / 10000 :: real)"
  using five_ppm_fast by (simp add: loop_tcxoMicros of_u32_def)

theorem tcxoMicros_recomputed_witness:
  "tcxoMicros (fst (loop (Some 10000000) [] init)) = Fin 1000000 \<and>
   tcxoMicros (fst (loop None [] init)) = Fin 1000000 \<and>
   tcxoMicros (fst (loop (Some 10000050) [] init)) = Fin (8589891642541787 / 8589934592)"
  using tcxoMicros_recomputed[of 10000000 "[]" init] tcxoMicros_recomputed[of 10000050 "[]" init]
  by (simp add: of_u32_def init_def)

lemma loop_on_change:
  assumes c: "intervalCycles s \<noteq> lastIntervalCycles s" and f: "\<not> firstTimeFlag s"
  shows "take 1 (snd (loop fc mid s)) = [TimerUpdate (dsub (dmul (countRatio s) (tcxoMicros s)) fudge)]"
    "timer_updates (snd (loop fc mid s)) = [dsub (dmul (countRatio s) (tcxoMicros s)) fudge]"
    "timer_begins (snd (loop fc mid s)) = []"
    "interval (fst (loop fc mid s)) = dsub (dmul (countRatio s) (tcxoMicros s)) fudge"
    "countRatio (fst (loop fc mid s)) = countRatio s"
proof -
  let ?t = "fire_all mid (loop_freq fc (fst (loop_interval s)))"
  have t: "\<not> firstTimeFlag ?t" "countRatio ?t = countRatio s"
    "interval ?t = dsub (dmul (countRatio s) (tcxoMicros s)) fudge"
    using c f by (simp_all add: loop_interval_interval)
  show "take 1 (snd (loop fc mid s)) = [TimerUpdate (dsub (dmul (countRatio s) (tcxoMicros s)) fudge)]"
    using c by (simp add: snd_loop loop_interval_changed)
  show "timer_updates (snd (loop fc mid s)) = [dsub (dmul (countRatio s) (tcxoMicros s)) fudge]"
    using c by (simp add: snd_loop loop_interval_out loop_pps_out)
  have "timer_begins (snd (loop_pps ?t)) = [] \<and> interval (fst (loop_pps ?t)) = interval ?t \<and>
      countRatio (fst (loop_pps ?t)) = countRatio ?t"
    by (cases ?t rule: loop_pps_cases)
       (use t(1) in \<open>simp_all add: loop_pps_idle loop_pps_warmup loop_pps_calibrate\<close>)
  then show "timer_begins (snd (loop fc mid s)) = []"
    "interval (fst (loop fc mid s)) = dsub (dmul (countRatio s) (tcxoMicros s)) fudge"
    "countRatio (fst (loop fc mid s)) = countRatio s"
    using t by (simp_all add: fst_loop snd_loop loop_interval_out)
qed


















section \<open>The calibration happens once, after the warm-up\<close>







lemma edges_before_mid [simp]:
  "edges_accounted (loop_freq fc (fst (loop_interval s))) = edges_accounted s"
  by (simp add: edges_accounted_def)


















section \<open>The ideal scenario\<close>

text \<open>
  C6, as the claim states it, fails in its last part. In the ideal run the calibration gives
  \<^verbatim>\<open>tcxoMicros = 1000000.0\<close> and \<^verbatim>\<open>countRatio = 1.0\<close>, but the timer is begun with the
  period 1,000,000.0: that is 5 microseconds away from 999,995.0, and it is not the value
  with the fudge subtracted.
\<close>

theorem ideal_timer_begins_at_full_second:
  "tcxoMicros (fst (run ideal)) = Fin 1000000 \<and> countRatio (fst (run ideal)) = Fin 1 \<and>
   timer_begins (snd (run ideal)) = [Fin 1000000] \<and>
   \<bar>1000000 - 999995\<bar> = (5 :: real) \<and>
   Fin 1000000 \<noteq> dsub (dmul (Fin 1) (Fin 1000000)) fudge"
  using first_update_value by (simp add: run_ideal)

lemma calibration_pass_ideal:
  assumes f: "firstTimeFlag s" and n: "firstTimeCount s = 10"
    and d: "ppsCycles s - lastPpsCycles s = 600000000"
    and i: "intervalCycles s = lastIntervalCycles s"
    and m: "fc = Some 10000000 \<or> fc = None \<and> tcxoMicros s = Fin 1000000"
  shows "tcxoMicros (fst (loop fc [] s)) = Fin 1000000"
    "countRatio (fst (loop fc [] s)) = Fin 1"
    "interval (fst (loop fc [] s)) = Fin 1000000"
    "snd (loop fc [] s) = [TimerBegin (Fin 1000000), PrintCalibrated]"
    "timerBegun (fst (loop fc [] s))"
    "lastIntervalCycles (fst (loop fc [] s)) = lastIntervalCycles s"
    "\<not> firstTimeFlag (fst (loop fc [] s))"
proof -
  let ?t = "fire_all [] (loop_freq fc (fst (loop_interval s)))"
  have tm: "tcxoMicros ?t = Fin 1000000"
    using m by (auto simp: loop_freq_tcxoMicros of_u32_def)
  have ne: "ppsCycles s \<noteq> lastPpsCycles s" using d by auto
  have c: "ppsCycles ?t \<noteq> lastPpsCycles ?t" "10 \<le> firstTimeCount ?t" "firstTimeFlag ?t"
    using f n ne by simp_all
  note p = loop_pps_calibrate[OF c]
  have mic: "micros (ppsCycles ?t - lastPpsCycles ?t) = Fin 1000000"
    using d by (simp add: micros_def of_u32_def)
  show "tcxoMicros (fst (loop fc [] s)) = Fin 1000000" using tm by (simp add: fst_loop)
  show "countRatio (fst (loop fc [] s)) = Fin 1"
    unfolding fst_loop p mic tm by simp
  show "interval (fst (loop fc [] s)) = Fin 1000000"
    unfolding fst_loop p mic tm by simp
  show "snd (loop fc [] s) = [TimerBegin (Fin 1000000), PrintCalibrated]"
    unfolding snd_loop p mic tm using i by (simp add: loop_interval_unchanged)
  show "timerBegun (fst (loop fc [] s))" unfolding fst_loop by (rule p)
  show "lastIntervalCycles (fst (loop fc [] s)) = lastIntervalCycles s"
    using i by (simp add: fst_loop)
  show "\<not> firstTimeFlag (fst (loop fc [] s))" unfolding fst_loop by (rule p)
qed


text \<open>
  C6, amended. When the warm-up is complete, the reference edges are 600,000,000 cycles
  apart and the window read is exactly 10,000,000 pulses, the calibration pass gives
  \<^verbatim>\<open>tcxoMicros = 1000000.0\<close> and \<^verbatim>\<open>countRatio = 1.0\<close> and begins the timer with the
  period 1,000,000.0 exactly, without the fudge. The fudge is first applied when the next
  interval capture is observed: the period is then the binary64 value
  \<open>8589934549050327 / 2\<^sup>3\<^sup>3\<close>, within \<open>10\<^sup>-\<^sup>9\<close> of 999,999.995.
\<close>

theorem ideal_calibration:
  assumes "firstTimeFlag (fst (run es))" and "firstTimeCount (fst (run es)) = 10"
    and "ppsCycles (fst (run es)) - lastPpsCycles (fst (run es)) = 600000000"
    and "fc = Some 10000000 \<or> fc = None \<and> measured es = Some 10000000"
  shows "tcxoMicros (fst (loop fc [] (fst (run es)))) = Fin 1000000 \<and>
    countRatio (fst (loop fc [] (fst (run es)))) = Fin 1 \<and>
    interval (fst (loop fc [] (fst (run es)))) = Fin 1000000 \<and>
    snd (loop fc [] (fst (run es))) = [TimerBegin (Fin 1000000), PrintCalibrated] \<and>
    (cyccnt \<noteq> 0 \<longrightarrow>
       timer_updates (snd (loop None [] (fire (Ivl cyccnt) (fst (loop fc [] (fst (run es)))))))
         = [Fin (8589934549050327 / 8589934592)]) \<and>
    \<bar>8589934549050327 / 8589934592 - 999999995 / 1000\<bar> < (1 / 1000000000 :: real)"
proof -
  let ?s = "fst (run es)"
  let ?s' = "fst (loop fc [] ?s)"
  from begins_first_invariant[of es] assms(1)
  have i: "intervalCycles ?s = 0" "lastIntervalCycles ?s = 0" by simp_all
  have tm: "measured es = Some 10000000 \<Longrightarrow> tcxoMicros ?s = Fin 1000000"
    using tcxoMicros_run_from[of init es] by (simp add: run_def of_u32_def)
  have m: "fc = Some 10000000 \<or> fc = None \<and> tcxoMicros ?s = Fin 1000000"
    using assms(4) tm by blast
  have ii: "intervalCycles ?s = lastIntervalCycles ?s" using i by simp
  note c = calibration_pass_ideal[OF assms(1,2,3) ii m]
  have u: "timer_updates (snd (loop None [] (fire (Ivl cyccnt) ?s'))) =
      [Fin (8589934549050327 / 8589934592)]" if nz: "cyccnt \<noteq> 0"
  proof -
    let ?u = "fire (Ivl cyccnt) ?s'"
    have "intervalCycles ?u \<noteq> lastIntervalCycles ?u"
      using nz c(5,6) i by (simp add: intervalInterrupt_def)
    moreover have "\<not> firstTimeFlag ?u" using c(7) by (simp add: intervalInterrupt_def)
    ultimately have "timer_updates (snd (loop None [] ?u)) =
        [dsub (dmul (countRatio ?u) (tcxoMicros ?u)) fudge]"
      by (rule loop_on_change(2))
    also have "countRatio ?u = Fin 1" using c(2) by (simp add: intervalInterrupt_def)
    also have "tcxoMicros ?u = Fin 1000000" using c(1) by (simp add: intervalInterrupt_def)
    finally show ?thesis by (simp only: first_update_value)
  qed
  show ?thesis using c(1-4) u by simp
qed

theorem ideal_calibration_witness:
  "firstTimeFlag (fst (run ideal_warm_up)) \<and> firstTimeCount (fst (run ideal_warm_up)) = 10 \<and>
   ppsCycles (fst (run ideal_warm_up)) - lastPpsCycles (fst (run ideal_warm_up)) = 600000000 \<and>
   measured ideal_warm_up = Some 10000000 \<and>
   countRatio (fst (loop (Some 10000000) [] (fst (run ideal_warm_up)))) = Fin 1 \<and>
   snd (loop (Some 10000000) [] (fst (run ideal_warm_up))) = [TimerBegin (Fin 1000000), PrintCalibrated] \<and>
   snd (loop None [] (fst (run ideal_warm_up))) = [TimerBegin (Fin 1000000), PrintCalibrated] \<and>
   timer_updates (snd (loop None [] (fire (Ivl 2305033704)
      (fst (loop (Some 10000000) [] (fst (run ideal_warm_up))))))) = [Fin (8589934549050327 / 8589934592)]"
proof -
  have h: "firstTimeFlag (fst (run ideal_warm_up))" "firstTimeCount (fst (run ideal_warm_up)) = 10"
    "ppsCycles (fst (run ideal_warm_up)) - lastPpsCycles (fst (run ideal_warm_up)) = 600000000"
    by (simp_all add: run_ideal_warm_up)
  have m: "measured ideal_warm_up = Some 10000000"
    by (simp add: ideal_warm_up_def ideal_pass_def ideal_edge_def)
  show ?thesis
    using h m ideal_calibration[OF h, of "Some 10000000" 2305033704]
      ideal_calibration[OF h, of None 2305033704]
    by simp
qed

section \<open>The copied pair is one capture\<close>

lemma settled_Main:
  assumes "settled c S" "tick_step Main c = Some c'"
  shows "settled c' S"
  using assms by (cases "place c") (auto simp: settled_def split: if_splits)

lemma settled_handler:
  assumes "settled c S" "tick_step (Store70 cyccnt) c = Some c1"
    "tick_step (Store73 cntr hold) c1 = Some c2"
  shows "settled c2 (insert (cyccnt, ucast cntr OR push_bit 16 (ucast hold)) S)"
  using assms
  by (auto simp: settled_def pps_store_cycles_def pps_store_count_def split: if_splits)

lemma handler_blocks:
  assumes "tick_step (Store70 cyccnt) c = Some c1"
  shows "tick_step Main c1 = None" "tick_step (Store70 x) c1 = None"
  using assms by (auto split: if_splits)

lemma handler_needs_start: "settled c S \<Longrightarrow> tick_step (Store73 cntr hold) c = None"
  by (simp add: settled_def)

lemma handler_start_keeps:
  assumes "settled c S" "tick_step (Store70 cyccnt) c = Some c'"
    "place c' = AtInterrupts \<or> place c' = AfterSection"
  shows "(pc c', tc c') \<in> S"
  using assms by (auto simp: settled_def split: if_splits)

lemma settled_copied:
  assumes "settled c S" "place c = AtInterrupts \<or> place c = AfterSection"
  shows "(pc c, tc c) \<in> S"
  using assms by (auto simp: settled_def)

lemma copied_pair_settled:
  assumes "settled c S" "ticks ts c = Some c'"
    "place c' = AtInterrupts \<or> place c' = AfterSection"
  shows "(pc c', tc c') \<in> S \<union> set (captures ts)"
  using assms
proof (induction ts arbitrary: c S rule: captures.induct, goal_cases)
  case (1 cyccnt cntr hold ts c S)
  from 1(3) obtain c1 c2 where
    s: "tick_step (Store70 cyccnt) c = Some c1" "tick_step (Store73 cntr hold) c1 = Some c2"
      "ticks ts c2 = Some c'"
    by (auto split: option.splits)
  from settled_handler[OF 1(2) s(1,2)]
  have "settled c2 (insert (cyccnt, ucast cntr OR push_bit 16 (ucast hold)) S)" .
  from 1(1)[OF this s(3) 1(4)] show ?case by auto
next
  case (2 ts c S)
  from 2(3) obtain c1 where s: "tick_step Main c = Some c1" "ticks ts c1 = Some c'"
    by (auto split: option.splits)
  from 2(1)[OF settled_Main[OF 2(2) s(1)] s(2) 2(4)]
  show ?case by simp
next
  case (3 cntr hold ts c S)
  from 3(3) handler_needs_start[OF 3(2), of cntr hold]
  show ?case by simp
next
  case (4 t c S)
  from 4(3) have s: "tick_step t c = Some c'" by (auto split: option.splits)
  show ?case
  proof (cases t)
    case Main
    with s 4(2) have "settled c' S" using settled_Main by blast
    from settled_copied[OF this 4(4)] show ?thesis by simp
  next
    case (Store70 x)
    with s handler_start_keeps[OF 4(2) _ 4(4)] show ?thesis by simp
  next
    case (Store73 x y)
    with s handler_needs_start[OF 4(2), of x y] show ?thesis by simp
  qed
next
  case (5 t va c S)
  from 5(3) obtain c1 where
    s: "tick_step t c = Some c1" "ticks (Main # va) c1 = Some c'"
    by (auto split: option.splits)
  show ?case
  proof (cases t)
    case Main
    with s 5(2) have "settled c1 S" using settled_Main by blast
    from 5(1)[OF this s(2) 5(4)] show ?thesis using Main by simp
  next
    case (Store70 x)
    with s handler_blocks(1)[of x c c1] show ?thesis by simp
  next
    case (Store73 x y)
    with s handler_needs_start[OF 5(2), of x y] show ?thesis by simp
  qed
next
  case (6 t vb va c S)
  from 6(3) obtain c1 where
    s: "tick_step t c = Some c1" "ticks (Store70 vb # va) c1 = Some c'"
    by (auto split: option.splits)
  show ?case
  proof (cases t)
    case Main
    with s 6(2) have "settled c1 S" using settled_Main by blast
    from 6(1)[OF this s(2) 6(4)] show ?thesis using Main by simp
  next
    case (Store70 x)
    with s handler_blocks(2)[of x c c1 vb] show ?thesis by simp
  next
    case (Store73 x y)
    with s handler_needs_start[OF 6(2), of x y] show ?thesis by simp
  qed
next
  case (7 c S)
  then show ?case using settled_copied by simp
qed

lemma settled_boot: "settled boot {(0, 0)}"
  by (simp add: settled_def boot_def init_def)

text \<open>
  C8. In every interleaving of the handler's two stores with the instructions of the
  critical section, starting from the initial state and over any number of passes, the
  pair \<open>(pc, tc)\<close> that the section has copied is the pair stored by one single run of
  the handler, or the initial pair of zeros: never a cycle count of one run with the
  tally of another.
\<close>

theorem copied_pair_from_one_edge:
  assumes "ticks ts boot = Some c" and "place c = AtInterrupts \<or> place c = AfterSection"
  shows "(pc c, tc c) \<in> set ((0, 0) # captures ts)"
  using copied_pair_settled[OF settled_boot assms] by simp

theorem copied_pair_from_one_edge_witness:
  "map_option (\<lambda>c. (place c, pc c, tc c))
     (ticks [Store70 1000, Store73 5 0, Main, Main, Main, Main, Store70 2000, Store73 9 0] boot)
     = Some (AfterSection, 1000, 5) \<and>
   (1000, 5) \<in> set ((0, 0) #
     captures [Store70 1000, Store73 5 0, Main, Main, Main, Main, Store70 2000, Store73 9 0]) \<and>
   ticks [Store70 1000, Store73 5 0, Main, Main, Store70 2000] boot = None"
proof -
  let ?ts = "[Store70 1000, Store73 5 0, Main, Main, Main, Main, Store70 2000, Store73 9 0]"
  obtain c where c: "ticks ?ts boot = Some c" "place c = AfterSection" "pc c = 1000" "tc c = 5"
    by (simp add: boot_def pps_store_cycles_def pps_store_count_def init_def)
  from copied_pair_from_one_edge[OF c(1)] c(2)
  have "(pc c, tc c) \<in> set ((0, 0) # captures ?ts)" by simp
  moreover have "ticks [Store70 1000, Store73 5 0, Main, Main, Store70 2000] boot = None"
    by (simp add: boot_def pps_store_cycles_def pps_store_count_def init_def)
  ultimately show ?thesis using c by simp
qed

end
